theory Spec2Isabelle
  imports Complex_Main "HOL-Library.Sublist"
begin

section \<open>Strings\<close>

text \<open>
  A JavaScript string is modelled as a \<^typ>\<open>string\<close>: the list of the bytes of its
  UTF-8 encoding (the text is well-formed Unicode). Every keyword the program searches for
  is ASCII, and an ASCII byte never occurs inside the encoding of another code point, so
  substring search on the bytes agrees with \<^verbatim>\<open>String.prototype.includes\<close> for
  ASCII needles.
\<close>

definition lowerChar :: "char \<Rightarrow> char" where
  "lowerChar c =
     (case map_of (zip ''ABCDEFGHIJKLMNOPQRSTUVWXYZ'' ''abcdefghijklmnopqrstuvwxyz'') c of
        None \<Rightarrow> c
      | Some l \<Rightarrow> l)"

text \<open>
  \<^verbatim>\<open>s.toLowerCase()\<close>. The letters A to Z become a to z. Two code points beyond ASCII
  have a lower case with an ASCII letter in it: U+212A KELVIN SIGN (bytes E2 84 AA)
  becomes \<open>k\<close>, and U+0130 LATIN CAPITAL LETTER I WITH DOT ABOVE (bytes C4 B0) becomes
  \<open>i\<close> followed by U+0307 (bytes CC 87). The lower case of every other code point beyond
  ASCII is beyond ASCII again; its bytes are left as they are, which no search for an
  ASCII keyword can tell from the program's result.
\<close>

fun toLowerCase :: "string \<Rightarrow> string" where
  "toLowerCase [] = []"
| "toLowerCase (c # cs) =
     (if c = CHR 0xE2 \<and> take 2 cs = [CHR 0x84, CHR 0xAA]
      then CHR ''k'' # toLowerCase (drop 2 cs)
      else if c = CHR 0xC4 \<and> take 1 cs = [CHR 0xB0]
      then CHR ''i'' # CHR 0xCC # CHR 0x87 # toLowerCase (drop 1 cs)
      else lowerChar c # toLowerCase cs)"

text \<open>\<^verbatim>\<open>s.includes(k)\<close>: \<open>k\<close> occurs in \<open>s\<close> as a contiguous run.\<close>

fun str_includes :: "string \<Rightarrow> string \<Rightarrow> bool" where
  "str_includes [] k = (k = [])"
| "str_includes (c # cs) k = (prefix k (c # cs) \<or> str_includes cs k)"

text \<open>\<^verbatim>\<open>xs.join(sep)\<close>.\<close>

fun join :: "string \<Rightarrow> string list \<Rightarrow> string" where
  "join sep [] = []"
| "join sep [x] = x"
| "join sep (x # y # ys) = x @ sep @ join sep (y # ys)"

text \<open>
  The white space and line terminators that \<^verbatim>\<open>String.prototype.trim\<close> strips, each
  as the bytes of its encoding: U+0009 to U+000D, U+0020, U+00A0, U+1680, U+2000 to
  U+200A, U+2028, U+2029, U+202F, U+205F, U+3000 and U+FEFF.
\<close>

definition whiteSpace :: "string list" where
  "whiteSpace =
    [[CHR 0x09], [CHR 0x0A], [CHR 0x0B], [CHR 0x0C], [CHR 0x0D], [CHR 0x20],
     [CHR 0xC2, CHR 0xA0], [CHR 0xE1, CHR 0x9A, CHR 0x80], [CHR 0xE2, CHR 0x80, CHR 0x80],
     [CHR 0xE2, CHR 0x80, CHR 0x81], [CHR 0xE2, CHR 0x80, CHR 0x82],
     [CHR 0xE2, CHR 0x80, CHR 0x83], [CHR 0xE2, CHR 0x80, CHR 0x84],
     [CHR 0xE2, CHR 0x80, CHR 0x85], [CHR 0xE2, CHR 0x80, CHR 0x86],
     [CHR 0xE2, CHR 0x80, CHR 0x87], [CHR 0xE2, CHR 0x80, CHR 0x88],
     [CHR 0xE2, CHR 0x80, CHR 0x89], [CHR 0xE2, CHR 0x80, CHR 0x8A],
     [CHR 0xE2, CHR 0x80, CHR 0xA8], [CHR 0xE2, CHR 0x80, CHR 0xA9],
     [CHR 0xE2, CHR 0x80, CHR 0xAF], [CHR 0xE2, CHR 0x81, CHR 0x9F],
     [CHR 0xE3, CHR 0x80, CHR 0x80], [CHR 0xEF, CHR 0xBB, CHR 0xBF]]"

text \<open>Dropping, from the front, every leading run that is one of \<open>ws\<close>.\<close>

fun stripLeading :: "string list \<Rightarrow> string \<Rightarrow> string" where
  "stripLeading ws [] = []"
| "stripLeading ws (c # cs) =
     (case find (\<lambda>w. w \<noteq> [] \<and> prefix w (c # cs)) ws of
        None \<Rightarrow> c # cs
      | Some w \<Rightarrow> stripLeading ws (drop (length w - 1) cs))"

text \<open>\<^verbatim>\<open>s.trim()\<close>: the white space is stripped from the front, then from the end.\<close>

definition trim :: "string \<Rightarrow> string" where
  "trim s = rev (stripLeading (map rev whiteSpace) (rev (stripLeading whiteSpace s)))"

text \<open>
  \<^verbatim>\<open>Array.from(new Set(xs))\<close>: a Set keeps its elements in insertion order, and adding
  a value that is already present changes nothing.
\<close>

definition setAdd :: "'a list \<Rightarrow> 'a \<Rightarrow> 'a list" where
  "setAdd seen x = (if x \<in> set seen then seen else seen @ [x])"

definition uniqueInOrder :: "'a list \<Rightarrow> 'a list" where
  "uniqueInOrder xs = foldl setAdd [] xs"

section \<open>The data model (types.ts)\<close>

datatype riskLevel = Low | Medium | High

record PipelineInput =
  employees :: "string list"
  lunchMenu :: "string list"

record EmployeeStepResult =
  normalizedEmployees :: "string list"

record HRStepResult =
  sanitizedMenu :: "string list"
  riskLevel :: riskLevel
  reasons :: "string list"
  threadId :: "string option"
  runId :: "string option"

section \<open>Policy predicates (steps/hr.ts)\<close>

definition containsTobacco :: "string \<Rightarrow> bool" where
  "containsTobacco item =
     (let itemLower = toLowerCase item;
          tobaccoKeywords = [''tobacco'', ''cigarette'', ''cigar'', ''vape'', ''smoking'', ''nicotine'']
      in list_ex (\<lambda>keyword. str_includes itemLower keyword) tobaccoKeywords)"

definition containsHardLiquor :: "string \<Rightarrow> bool" where
  "containsHardLiquor item =
     (let itemLower = toLowerCase item;
          hardLiquors = [''vodka'', ''whiskey'', ''rum'', ''gin'', ''tequila'', ''brandy'',
                         ''cognac'', ''bourbon'', ''scotch'', ''liqueur'']
      in list_ex (\<lambda>liquor. str_includes itemLower liquor) hardLiquors)"

definition containsAllowedAlcohol :: "string \<Rightarrow> bool" where
  "containsAllowedAlcohol item =
     (let itemLower = toLowerCase item;
          allowedAlcohol = [''beer'', ''wine'', ''champagne'', ''sparkling wine'', ''prosecco'',
                            ''lager'', ''ale'']
      in list_ex (\<lambda>alcohol. str_includes itemLower alcohol) allowedAlcohol)"

definition containsMajorAllergens :: "string \<Rightarrow> bool" where
  "containsMajorAllergens item =
     (let itemLower = toLowerCase item;
          majorAllergens = [''peanut'', ''shellfish'', ''tree nut'']
      in list_ex (\<lambda>allergen. str_includes itemLower allergen) majorAllergens)"

text \<open>
  The pictographs that open the reason strings, as the bytes of their UTF-8 encoding:
  U+1F6AB, U+1F377, U+26A0 U+FE0F, U+1FAF6 and U+2705.
\<close>

definition emojiProhibited :: string where
  "emojiProhibited = [CHR 0xF0, CHR 0x9F, CHR 0x9A, CHR 0xAB]"

definition emojiWine :: string where
  "emojiWine = [CHR 0xF0, CHR 0x9F, CHR 0x8D, CHR 0xB7]"

definition emojiWarning :: string where
  "emojiWarning = [CHR 0xE2, CHR 0x9A, CHR 0xA0, CHR 0xEF, CHR 0xB8, CHR 0x8F]"

definition emojiHeartHands :: string where
  "emojiHeartHands = [CHR 0xF0, CHR 0x9F, CHR 0xAB, CHR 0xB6]"

definition emojiCheck :: string where
  "emojiCheck = [CHR 0xE2, CHR 0x9C, CHR 0x85]"

section \<open>The menu sanitizer\<close>

record SanitizeResult =
  sanitized :: "string list"
  violations :: "string list"

text \<open>
  \<^verbatim>\<open>menu.filter(item => ...)\<close> with the callback pushing onto \<open>violations\<close>: one pass
  over the menu in order, so the violations come out in the order of the items.
\<close>

fun sanitizeMenuBasedOnPolicy :: "string list \<Rightarrow> SanitizeResult" where
  "sanitizeMenuBasedOnPolicy [] = \<lparr>sanitized = [], violations = []\<rparr>"
| "sanitizeMenuBasedOnPolicy (item # rest) =
     (let r = sanitizeMenuBasedOnPolicy rest in
      if containsTobacco item then
        r\<lparr>violations := (emojiProhibited @ '' Tobacco product removed: '' @ item) # violations r\<rparr>
      else if containsHardLiquor item then
        r\<lparr>violations := (emojiWine @ '' Hard liquor removed: '' @ item) # violations r\<rparr>
      else if containsMajorAllergens item then
        r\<lparr>violations := (emojiWarning @ '' Major allergen removed: '' @ item) # violations r\<rparr>
      else
        r\<lparr>sanitized := item # sanitized r\<rparr>)"

section \<open>Inclusivity checks\<close>

record Inclusivity =
  hasVegetarian :: bool
  isPorkHeavy :: bool

text \<open>
  \<^verbatim>\<open>(text.match(/w1|w2|.../g) || []).length\<close>: the number of matches found scanning from
  the left; at each position the alternatives are tried in order, and after a match the
  scan goes on behind it (the words are not empty, so \<open>drop (length k - 1) cs\<close> is the
  text behind the match).
\<close>

fun countMatches :: "string list \<Rightarrow> string \<Rightarrow> nat" where
  "countMatches words [] = 0"
| "countMatches words (c # cs) =
     (case find (\<lambda>k. k \<noteq> [] \<and> prefix k (c # cs)) words of
        None \<Rightarrow> countMatches words cs
      | Some k \<Rightarrow> Suc (countMatches words (drop (length k - 1) cs)))"

text \<open>
  \<open>porkCount > totalItems * 0.5\<close> compares whole numbers with a half: it is
  \<open>totalItems < 2 * porkCount\<close>.
\<close>

definition checkInclusivity :: "string list \<Rightarrow> Inclusivity" where
  "checkInclusivity menu =
     (let menuText = toLowerCase (join '' '' menu);
          hasVegetarian = (str_includes menuText ''vegetarian'' \<or> str_includes menuText ''vegan'' \<or>
                           str_includes menuText ''salad'' \<or> str_includes menuText ''veggie'');
          porkCount = countMatches [''pork'', ''bacon'', ''ham'', ''sausage''] menuText;
          totalItems = length menu;
          isPorkHeavy = (totalItems < 2 * porkCount)
      in \<lparr>hasVegetarian = hasVegetarian, isPorkHeavy = isPorkHeavy\<rparr>)"

definition validateInclusivity :: "string list \<Rightarrow> string list" where
  "validateInclusivity menu =
     (let inclusivity = checkInclusivity menu in
      (if \<not> hasVegetarian inclusivity
       then [emojiHeartHands @ '' No vegetarian/vegan options available - consider adding plant-based choices'']
       else []) @
      (if isPorkHeavy inclusivity
       then [emojiHeartHands @ '' Menu is pork-heavy - may exclude religious dietary restrictions'']
       else []))"

section \<open>Interpreting the advisory response\<close>

definition parseRiskLevel :: "string \<Rightarrow> riskLevel" where
  "parseRiskLevel response =
     (let responseLower = toLowerCase response in
      if str_includes responseLower ''tobacco'' \<or> str_includes responseLower ''hard liquor'' \<or>
         str_includes responseLower ''peanut'' \<or> str_includes responseLower ''shellfish'' \<or>
         str_includes responseLower ''high risk'' \<or> str_includes responseLower ''dangerous''
      then High
      else if str_includes responseLower ''medium risk'' \<or> str_includes responseLower ''moderate'' \<or>
              str_includes responseLower ''inclusivity'' \<or>
              str_includes responseLower ''dietary restriction'' \<or>
              str_includes responseLower ''allergen''
      then Medium
      else Low)"

definition extractRiskReasons :: "string \<Rightarrow> string list" where
  "extractRiskReasons response =
     (let responseLower = toLowerCase response in
      (if str_includes responseLower ''tobacco'' \<or> str_includes responseLower ''cigarette'' \<or>
          str_includes responseLower ''cigar'' \<or> str_includes responseLower ''vape'' \<or>
          str_includes responseLower ''smoking''
       then [emojiProhibited @ '' Contains tobacco products (cigars, cigarettes, vapes) - not allowed'']
       else []) @
      (if str_includes responseLower ''vodka'' \<or> str_includes responseLower ''whiskey'' \<or>
          str_includes responseLower ''rum'' \<or> str_includes responseLower ''tequila'' \<or>
          str_includes responseLower ''gin'' \<or> str_includes responseLower ''brandy'' \<or>
          str_includes responseLower ''liqueur'' \<or> str_includes responseLower ''hard liquor''
       then [emojiWine @ '' Contains hard liquor - not allowed (beer, wine, champagne are permitted)'']
       else []) @
      (if str_includes responseLower ''peanut'' \<or> str_includes responseLower ''tree nut''
       then [emojiWarning @ '' Contains nuts/peanuts - major allergen risk'']
       else []) @
      (if str_includes responseLower ''shellfish''
       then [emojiWarning @ '' Contains shellfish - major allergen risk'']
       else []) @
      (if str_includes responseLower ''gluten'' \<and> \<not> str_includes responseLower ''gluten-free''
       then [emojiWarning @ '' Contains gluten - dietary restriction concern'']
       else []) @
      (if str_includes responseLower ''dairy'' \<or> str_includes responseLower ''lactose''
       then [emojiWarning @ '' Contains dairy/lactose - dietary restriction concern'']
       else []) @
      (if str_includes responseLower ''soy''
       then [emojiWarning @ '' Contains soy - allergen concern'']
       else []) @
      (if str_includes responseLower ''egg''
       then [''Contains eggs - allergen concern'']
       else []) @
      (if str_includes responseLower ''pork'' \<and> str_includes responseLower ''only''
       then [emojiHeartHands @ '' Menu may exclude religious dietary restrictions (pork-heavy)'']
       else []) @
      (if \<not> str_includes responseLower ''vegetarian'' \<and> \<not> str_includes responseLower ''vegan''
       then [emojiHeartHands @ '' No vegetarian/vegan options identified - inclusivity concern'']
       else []))"

section \<open>The HR step\<close>

definition compliantReason :: string where
  "compliantReason = emojiCheck @ '' Menu complies with company policy''"

text \<open>Fallback HR logic when Azure AI is not available.\<close>

definition fallbackHRStep :: "PipelineInput \<Rightarrow> HRStepResult" where
  "fallbackHRStep input =
     (let r = sanitizeMenuBasedOnPolicy (lunchMenu input);
          sanitizedMenu = sanitized r;
          inclusivityIssues = validateInclusivity sanitizedMenu;
          hasTobacco = list_ex containsTobacco (lunchMenu input);
          hasHardLiquor = list_ex containsHardLiquor (lunchMenu input);
          hasMajorAllergens = list_ex containsMajorAllergens (lunchMenu input);
          riskLevel = (if hasTobacco \<or> hasMajorAllergens then High
                       else if hasHardLiquor \<or> 0 < length inclusivityIssues then Medium
                       else Low);
          allReasons = violations r @ inclusivityIssues;
          uniqueReasons = uniqueInOrder allReasons
      in \<lparr>sanitizedMenu = sanitizedMenu,
          riskLevel = riskLevel,
          reasons = (if 0 < length uniqueReasons then uniqueReasons else [compliantReason]),
          threadId = None,
          runId = None\<rparr>)"

text \<open>
  The result of the advisory path, once the response text, the thread and the run are
  known (the tail of \<open>hrStep\<close>, from \<open>parseRiskLevel(response)\<close> on).
\<close>

definition advisoryResult :: "PipelineInput \<Rightarrow> string \<Rightarrow> string \<Rightarrow> string \<Rightarrow> HRStepResult" where
  "advisoryResult input response thread_id run_id =
     (let riskLevel = parseRiskLevel response;
          aiReasons = extractRiskReasons response;
          r = sanitizeMenuBasedOnPolicy (lunchMenu input);
          sanitizedMenu = sanitized r;
          inclusivityIssues = validateInclusivity sanitizedMenu;
          allReasons = aiReasons @ violations r @ inclusivityIssues;
          uniqueReasons = uniqueInOrder allReasons
      in \<lparr>sanitizedMenu = sanitizedMenu,
          riskLevel = riskLevel,
          reasons = (if 0 < length uniqueReasons then uniqueReasons else [compliantReason]),
          threadId = Some thread_id,
          runId = Some run_id\<rparr>)"

text \<open>
  The world outside the process, for one invocation: the two environment variables
  (\<open>None\<close> when unset), and what each call to the credential and to the advisory service
  gives back. A call either throws (\<open>Inl\<close>) or returns (\<open>Inr\<close>); \<open>runs_get n\<close> is the status
  that the \<open>n\<close>-th call of \<^verbatim>\<open>client.agents.runs.get\<close> reports, counting from 0.
\<close>

datatype exn = Exn string

datatype MessageContent = TextContent string | OtherContent

record Message =
  role :: string
  content :: "MessageContent list"

record World =
  AZURE_AI_PROJECT_ENDPOINT :: "string option"
  AZURE_AI_AGENT_ID :: "string option"
  newCredential :: "exn + unit"
  getToken :: "exn + string option"
  newClient :: "exn + unit"
  threads_create :: "exn + string"
  messages_create :: "exn + unit"
  runs_create :: "exn + string"
  runs_get :: "nat \<Rightarrow> exn + string"
  messages_list :: "exn + Message list"

text \<open>\<^verbatim>\<open>!v\<close> for an environment variable: unset or the empty string.\<close>

definition unset :: "string option \<Rightarrow> bool" where
  "unset v = (case v of None \<Rightarrow> True | Some s \<Rightarrow> s = [])"

text \<open>\<^verbatim>\<open>!!tokenResponse?.token\<close>, and \<open>false\<close> when \<open>getToken\<close> throws.\<close>

definition validateAzureCredentials :: "World \<Rightarrow> bool" where
  "validateAzureCredentials w =
     (case getToken w of
        Inl error \<Rightarrow> False
      | Inr None \<Rightarrow> False
      | Inr (Some token) \<Rightarrow> token \<noteq> [])"

definition maxAttempts :: nat where
  "maxAttempts = 60"

text \<open>
  The polling loop, from the status of the first \<open>runs.get\<close> and \<open>attempts = 0\<close>; it
  returns the last status and the number of attempts made.
\<close>

function pollLoop :: "(nat \<Rightarrow> exn + string) \<Rightarrow> string \<Rightarrow> nat \<Rightarrow> exn + (string \<times> nat)" where
  "pollLoop get runStatus attempts =
     (if (runStatus = ''in_progress'' \<or> runStatus = ''queued'') \<and> attempts < maxAttempts
      then (case get (attempts + 1) of
              Inl error \<Rightarrow> Inl error
            | Inr status \<Rightarrow> pollLoop get status (attempts + 1))
      else Inr (runStatus, attempts))"
  by pat_completeness auto
termination
  by (relation "measure (\<lambda>(get, runStatus, attempts). maxAttempts - attempts)") auto

declare pollLoop.simps [simp del]

text \<open>
  \<^verbatim>\<open>assistantMessages[0]?.content?.[0]\<close> and the text of it, \<open>''\<close> when there is none.
\<close>

definition responseText :: "Message \<Rightarrow> string" where
  "responseText m = (case content m of TextContent v # rest \<Rightarrow> v | _ \<Rightarrow> [])"

text \<open>
  An awaited call whose exception leaves the \<open>try\<close> block: the rest runs on the value
  returned.
\<close>

definition andThen :: "exn + 'a \<Rightarrow> ('a \<Rightarrow> exn + 'b) \<Rightarrow> exn + 'b" where
  "andThen call rest = (case call of Inl error \<Rightarrow> Inl error | Inr v \<Rightarrow> rest v)"

text \<open>
  What \<open>hrStep\<close> does once the polling loop has ended with \<open>runStatus\<close> after \<open>attempts\<close>
  attempts.
\<close>

definition afterPolling ::
  "World \<Rightarrow> PipelineInput \<Rightarrow> string \<Rightarrow> string \<Rightarrow> string \<times> nat \<Rightarrow> exn + HRStepResult" where
  "afterPolling w input thread_id run_id polled =
     (let runStatus = fst polled; attempts = snd polled in
      if maxAttempts \<le> attempts then Inr (fallbackHRStep input)
      else if runStatus = ''failed'' \<or> runStatus = ''cancelled'' then Inr (fallbackHRStep input)
      else andThen (messages_list w) (\<lambda>messages.
        (case filter (\<lambda>m. role m = ''assistant'') messages of
           [] \<Rightarrow> Inr (fallbackHRStep input)
         | m # rest \<Rightarrow>
             (let response = responseText m in
              if response = [] then Inr (fallbackHRStep input)
              else Inr (advisoryResult input response thread_id run_id)))))"

text \<open>The body of the \<open>try\<close> block of \<open>hrStep\<close>: \<open>Inl\<close> is an exception thrown inside it.\<close>

definition hrStep_try :: "World \<Rightarrow> PipelineInput \<Rightarrow> exn + HRStepResult" where
  "hrStep_try w input =
     (if unset (AZURE_AI_PROJECT_ENDPOINT w) \<or> unset (AZURE_AI_AGENT_ID w)
      then Inr (fallbackHRStep input)
      else andThen (newCredential w) (\<lambda>credential.
        if \<not> validateAzureCredentials w then Inr (fallbackHRStep input)
        else andThen (newClient w) (\<lambda>client.
          andThen (threads_create w) (\<lambda>thread_id.
          andThen (messages_create w) (\<lambda>created.
          andThen (runs_create w) (\<lambda>run_id.
          andThen (runs_get w 0) (\<lambda>status0.
          andThen (pollLoop (runs_get w) status0 0) (\<lambda>polled.
          afterPolling w input thread_id run_id polled))))))))"

text \<open>\<open>hrStep\<close>: the \<open>try\<close> block, and the \<open>catch\<close> that answers with the fallback.\<close>

definition hrStep :: "World \<Rightarrow> PipelineInput \<Rightarrow> exn + HRStepResult" where
  "hrStep w input =
     (case hrStep_try w input of
        Inl error \<Rightarrow> Inr (fallbackHRStep input)
      | Inr result \<Rightarrow> Inr result)"

section \<open>The employee step\<close>

definition employeeStep :: "PipelineInput \<Rightarrow> EmployeeStepResult" where
  "employeeStep input =
     \<lparr>normalizedEmployees =
        uniqueInOrder (filter (\<lambda>emp. 0 < length emp) (map (\<lambda>emp. trim emp) (employees input)))\<rparr>"

section \<open>Numbers\<close>

text \<open>
  A JavaScript number is \<open>NaN\<close>, an infinity or a finite double; a finite value is
  modelled as the real it stands for. Minus zero is not told apart from zero, which no
  comparison does either.
\<close>

datatype number = NaN | NegInf | Fin real | PosInf

text \<open>
  The product of two finite values is the exact product rounded to the nearest double,
  ties to the even significand (IEEE 754 binary64). \<open>expo x\<close> is the binary exponent of a
  positive \<open>x\<close>, the \<open>e\<close> with \<open>2^e \<le> x < 2^(e+1)\<close>; the doubles of that binade are the
  multiples of \<open>2^(e-52)\<close>, and below \<open>2^(-1022)\<close> the spacing stays \<open>2^(-1074)\<close>. A result
  of magnitude \<open>2^1024\<close> or more overflows to an infinity.
\<close>

definition pow2 :: "int \<Rightarrow> real" where
  "pow2 e = (if 0 \<le> e then 2 ^ nat e else 1 / 2 ^ nat (- e))"

function expo :: "real \<Rightarrow> int" where
  "expo x = (if x \<le> 0 then 0
             else if 2 \<le> x then expo (x / 2) + 1
             else if x < 1 then expo (x * 2) - 1
             else 0)"
  by pat_completeness auto
termination
proof (relation "measure (\<lambda>x. nat \<bar>\<lfloor>log 2 x\<rfloor>\<bar>)")
  show "wf (measure (\<lambda>x. nat \<bar>\<lfloor>log 2 x\<rfloor>\<bar>))" by simp
next
  fix x :: real
  assume "\<not> x \<le> 0" "2 \<le> x"
  then have "log 2 (x / 2) = log 2 x - 1" "1 \<le> log 2 x"
    by (simp_all add: log_divide le_log_iff)
  then have "\<lfloor>log 2 (x / 2)\<rfloor> = \<lfloor>log 2 x\<rfloor> - 1" "1 \<le> \<lfloor>log 2 x\<rfloor>"
    by (simp_all add: le_floor_iff)
  then have "nat \<bar>\<lfloor>log 2 (x / 2)\<rfloor>\<bar> < nat \<bar>\<lfloor>log 2 x\<rfloor>\<bar>"
    by linarith
  then show "(x / 2, x) \<in> measure (\<lambda>x. nat \<bar>\<lfloor>log 2 x\<rfloor>\<bar>)"
    by simp
next
  fix x :: real
  assume "\<not> x \<le> 0" "\<not> 2 \<le> x" "x < 1"
  then have "log 2 (x * 2) = log 2 x + 1" "log 2 x < 0"
    by (simp_all add: log_mult)
  then have "\<lfloor>log 2 (x * 2)\<rfloor> = \<lfloor>log 2 x\<rfloor> + 1" "\<lfloor>log 2 x\<rfloor> < 0"
    by (simp_all add: floor_less_iff)
  then have "nat \<bar>\<lfloor>log 2 (x * 2)\<rfloor>\<bar> < nat \<bar>\<lfloor>log 2 x\<rfloor>\<bar>"
    by linarith
  then show "(x * 2, x) \<in> measure (\<lambda>x. nat \<bar>\<lfloor>log 2 x\<rfloor>\<bar>)"
    by simp
qed

declare expo.simps [simp del]

definition roundEven :: "real \<Rightarrow> int" where
  "roundEven t =
     (let f = \<lfloor>t\<rfloor>; d = t - of_int f
      in if d < 1 / 2 then f else if 1 / 2 < d then f + 1 else if even f then f else f + 1)"

definition binade :: "real \<Rightarrow> int" where
  "binade x = max (expo \<bar>x\<bar>) (- 1022)"

definition gridRound :: "real \<Rightarrow> real" where
  "gridRound x = (let q = pow2 (binade x - 52) in q * of_int (roundEven (x / q)))"

definition roundDouble :: "real \<Rightarrow> number" where
  "roundDouble x =
     (let y = gridRound x
      in if 2 ^ 1024 \<le> y then PosInf else if y \<le> - (2 ^ 1024) then NegInf else Fin y)"

text \<open>\<open>x * y\<close>.\<close>

fun num_mul :: "number \<Rightarrow> number \<Rightarrow> number" where
  "num_mul NaN y = NaN"
| "num_mul x NaN = NaN"
| "num_mul (Fin a) (Fin b) = roundDouble (a * b)"
| "num_mul (Fin a) PosInf = (if a = 0 then NaN else if 0 < a then PosInf else NegInf)"
| "num_mul (Fin a) NegInf = (if a = 0 then NaN else if 0 < a then NegInf else PosInf)"
| "num_mul PosInf (Fin b) = (if b = 0 then NaN else if 0 < b then PosInf else NegInf)"
| "num_mul NegInf (Fin b) = (if b = 0 then NaN else if 0 < b then NegInf else PosInf)"
| "num_mul PosInf PosInf = PosInf"
| "num_mul PosInf NegInf = NegInf"
| "num_mul NegInf PosInf = NegInf"
| "num_mul NegInf NegInf = PosInf"

text \<open>\<open>x <= y\<close> and \<open>x > y\<close>: both are false as soon as one side is \<open>NaN\<close>.\<close>

fun num_le :: "number \<Rightarrow> number \<Rightarrow> bool" where
  "num_le NaN y = False"
| "num_le x NaN = False"
| "num_le NegInf y = True"
| "num_le x PosInf = True"
| "num_le (Fin a) (Fin b) = (a \<le> b)"
| "num_le (Fin a) NegInf = False"
| "num_le PosInf y = False"

fun num_gt :: "number \<Rightarrow> number \<Rightarrow> bool" where
  "num_gt NaN y = False"
| "num_gt x NaN = False"
| "num_gt PosInf PosInf = False"
| "num_gt PosInf y = True"
| "num_gt NegInf y = False"
| "num_gt (Fin a) (Fin b) = (b < a)"
| "num_gt (Fin a) NegInf = True"
| "num_gt (Fin a) PosInf = False"

text \<open>\<open>x || d\<close> on numbers: \<open>d\<close> when \<open>x\<close> is \<open>NaN\<close> or zero.\<close>

definition orElse :: "number \<Rightarrow> number \<Rightarrow> number" where
  "orElse x d = (if x = NaN \<or> x = Fin 0 then d else x)"

section \<open>The finance step\<close>

text \<open>
  The two environment variables the step reads, after \<open>Number(...)\<close>: \<open>NaN\<close> when the
  variable is unset or is not a numeric string.
\<close>

record Env =
  LUNCH_BUDGET_PER_PERSON :: number
  HEADCOUNT :: number

record FinanceStepResult =
  totalCost :: number
  budget :: number
  withinBudget :: bool
  costPerPerson :: number

definition financeStep :: "Env \<Rightarrow> EmployeeStepResult \<Rightarrow> FinanceStepResult" where
  "financeStep env employeeResult =
     (let headcount = Fin (real (length (normalizedEmployees employeeResult)));
          budgetPerPerson = orElse (LUNCH_BUDGET_PER_PERSON env) (Fin 15);
          totalBudget = num_mul (HEADCOUNT env) budgetPerPerson;
          totalCost = num_mul headcount budgetPerPerson;
          withinBudget = num_le totalCost totalBudget
      in \<lparr>totalCost = totalCost,
          budget = totalBudget,
          withinBudget = withinBudget,
          costPerPerson = budgetPerPerson\<rparr>)"

section \<open>The manager step\<close>

record ManagerStepResult =
  approved :: bool
  message :: string
  finalDecision :: string

text \<open>
  The messages print two numbers; \<open>numToString\<close> stands for the conversion of a number
  to a string that a template literal applies.
\<close>

definition managerStep ::
  "(number \<Rightarrow> string) \<Rightarrow> HRStepResult \<Rightarrow> FinanceStepResult \<Rightarrow> ManagerStepResult" where
  "managerStep numToString hrResult financeResult =
     (let isHighRisk = (riskLevel hrResult = High);
          overBudget = (\<not> withinBudget financeResult)
      in if isHighRisk then
           \<lparr>approved = False,
            message = ''BLOCKED: High risk level detected in lunch menu. Reasons: '' @
                      join '', '' (reasons hrResult),
            finalDecision = ''Lunch order rejected due to high health/safety risk''\<rparr>
         else if overBudget then
           \<lparr>approved = False,
            message = ''BLOCKED: Budget exceeded. Total cost: $'' @
                      numToString (totalCost financeResult) @ '', Budget: $'' @
                      numToString (budget financeResult),
            finalDecision = ''Lunch order rejected due to budget constraints''\<rparr>
         else if riskLevel hrResult = Medium then
           \<lparr>approved = True,
            message = ''APPROVED with caution: Medium risk detected. '' @
                      join '', '' (reasons hrResult) @ ''. Please review sanitized menu.'',
            finalDecision = ''Lunch order approved with caution - please review the sanitized menu''\<rparr>
         else
           \<lparr>approved = True,
            message = ''APPROVED: All checks passed. Cost: $'' @
                      numToString (totalCost financeResult) @ '' within budget of $'' @
                      numToString (budget financeResult),
            finalDecision = ''Lunch order fully approved''\<rparr>)"

section \<open>Reference definitions, in the words of the specification\<close>

text \<open>
  The reason the sanitizer owes for an item: the one of the first check that matches, in
  the fixed order prohibited substance, restricted alcohol, major allergen; none for an
  item that passes all three.
\<close>

definition firstViolation :: "string \<Rightarrow> string option" where
  "firstViolation item =
     (if containsTobacco item then Some (emojiProhibited @ '' Tobacco product removed: '' @ item)
      else if containsHardLiquor item then Some (emojiWine @ '' Hard liquor removed: '' @ item)
      else if containsMajorAllergens item then Some (emojiWarning @ '' Major allergen removed: '' @ item)
      else None)"

text \<open>
  The first occurrence of each value of a list, in the order of the list: the elements
  at the positions that no earlier position holds the same value.
\<close>

definition firstOccurrences :: "'a list \<Rightarrow> 'a list" where
  "firstOccurrences xs =
     map (\<lambda>i. xs ! i) (filter (\<lambda>i. xs ! i \<notin> set (take i xs)) [0..<length xs])"

text \<open>
  The rule-only risk classification: high if any raw item is a prohibited substance or a
  major allergen; else medium if any raw item is restricted alcohol, or inclusivity issues
  exist on the sanitized menu; else low.
\<close>

definition ruleOnlyRisk :: "string list \<Rightarrow> riskLevel" where
  "ruleOnlyRisk menu =
     (if \<exists>item \<in> set menu. containsTobacco item \<or> containsMajorAllergens item then High
      else if (\<exists>item \<in> set menu. containsHardLiquor item) \<or>
              validateInclusivity (sanitized (sanitizeMenuBasedOnPolicy menu)) \<noteq> []
      then Medium
      else Low)"

text \<open>A run that has not finished yet: the two statuses the polling loop waits on.\<close>

definition pending :: "string \<Rightarrow> bool" where
  "pending runStatus = (runStatus = ''in_progress'' \<or> runStatus = ''queued'')"

text \<open>
  The service is configured, the credential is valid and every call before the polling
  succeeds, with \<open>thread_id\<close> and \<open>run_id\<close> the identifiers it hands out.
\<close>

definition serviceUp :: "World \<Rightarrow> string \<Rightarrow> string \<Rightarrow> bool" where
  "serviceUp w thread_id run_id =
     (\<not> unset (AZURE_AI_PROJECT_ENDPOINT w) \<and> \<not> unset (AZURE_AI_AGENT_ID w) \<and>
      newCredential w = Inr () \<and> validateAzureCredentials w \<and> newClient w = Inr () \<and>
      threads_create w = Inr thread_id \<and> messages_create w = Inr () \<and>
      runs_create w = Inr run_id)"

text \<open>
  An example world: the service is up, the run reports \<open>statuses\<close>, and the thread then
  holds the assistant's answer \<open>response\<close> before the user's question.
\<close>

definition respondingWorld :: "(nat \<Rightarrow> exn + string) \<Rightarrow> string \<Rightarrow> World" where
  "respondingWorld statuses response =
     \<lparr>AZURE_AI_PROJECT_ENDPOINT = Some ''https://example.invalid'',
      AZURE_AI_AGENT_ID = Some ''agent_1'',
      newCredential = Inr (),
      getToken = Inr (Some ''token''),
      newClient = Inr (),
      threads_create = Inr ''thread_1'',
      messages_create = Inr (),
      runs_create = Inr ''run_1'',
      runs_get = statuses,
      messages_list = Inr [\<lparr>role = ''assistant'', content = [TextContent response]\<rparr>,
                           \<lparr>role = ''user'', content = [TextContent ''Analyze this lunch menu'']\<rparr>]\<rparr>"

section \<open>The menu sanitizer: what is kept and what is reported\<close>

lemma sanitized_filter:
  "sanitized (sanitizeMenuBasedOnPolicy menu) =
     filter (\<lambda>item. \<not> containsTobacco item \<and> \<not> containsHardLiquor item \<and>
                     \<not> containsMajorAllergens item) menu"
  by (induction menu) (simp_all add: Let_def)

lemma violations_map_filter:
  "violations (sanitizeMenuBasedOnPolicy menu) = List.map_filter firstViolation menu"
  by (induction menu) (simp_all add: Let_def firstViolation_def List.map_filter_simps)

lemma firstViolation_None:
  "(firstViolation item = None) =
     (\<not> containsTobacco item \<and> \<not> containsHardLiquor item \<and> \<not> containsMajorAllergens item)"
  by (simp add: firstViolation_def)

lemma length_map_filter_filter:
  "length (List.map_filter f xs) + length (filter (\<lambda>x. f x = None) xs) = length xs"
  by (induction xs) (auto simp: List.map_filter_simps split: option.splits)

text \<open>
  C6. For every menu, the sanitized menu is a subsequence of the input (the items that
  pass all three checks, unchanged and in their order), and the violations are, in the
  order of the menu, one reason for each removed item: that of the first check the item
  fails, in the order tobacco, hard liquor, major allergen. So there are as many reasons
  as removed items.
\<close>

theorem sanitizer_subsequence_one_reason:
  "subseq (sanitized (sanitizeMenuBasedOnPolicy menu)) menu \<and>
   sanitized (sanitizeMenuBasedOnPolicy menu) = filter (\<lambda>item. firstViolation item = None) menu \<and>
   violations (sanitizeMenuBasedOnPolicy menu) = List.map_filter firstViolation menu \<and>
   length (violations (sanitizeMenuBasedOnPolicy menu)) +
     length (sanitized (sanitizeMenuBasedOnPolicy menu)) = length menu"
proof -
  have s: "sanitized (sanitizeMenuBasedOnPolicy menu) =
             filter (\<lambda>item. firstViolation item = None) menu"
    by (simp add: sanitized_filter firstViolation_None)
  have v: "violations (sanitizeMenuBasedOnPolicy menu) = List.map_filter firstViolation menu"
    by (rule violations_map_filter)
  have "subseq (sanitized (sanitizeMenuBasedOnPolicy menu)) menu"
    unfolding s by (rule subseq_filter_left)
  moreover have "length (violations (sanitizeMenuBasedOnPolicy menu)) +
      length (sanitized (sanitizeMenuBasedOnPolicy menu)) = length menu"
    unfolding s v by (rule length_map_filter_filter)
  ultimately show ?thesis using s v by blast
qed

lemma sanitizer_example:
  "sanitized (sanitizeMenuBasedOnPolicy [''Peanut pie'', ''Rice'', ''Cigar and Rum'']) = [''Rice''] \<and>
   violations (sanitizeMenuBasedOnPolicy [''Peanut pie'', ''Rice'', ''Cigar and Rum'']) =
     [emojiWarning @ '' Major allergen removed: Peanut pie'',
      emojiProhibited @ '' Tobacco product removed: Cigar and Rum'']"
  by code_simp

theorem sanitizer_subsequence_one_reason_witness:
  "subseq [''Rice''] [''Peanut pie'', ''Rice'', ''Cigar and Rum''] \<and>
   [emojiWarning @ '' Major allergen removed: Peanut pie'',
    emojiProhibited @ '' Tobacco product removed: Cigar and Rum''] =
     List.map_filter firstViolation [''Peanut pie'', ''Rice'', ''Cigar and Rum'']"
  using sanitizer_subsequence_one_reason [of "[''Peanut pie'', ''Rice'', ''Cigar and Rum'']"]
  unfolding sanitizer_example [THEN conjunct1] sanitizer_example [THEN conjunct2]
  by blast

section \<open>The employee step: trimmed, non-empty, first occurrences\<close>

lemma distinct_foldl_setAdd: "distinct acc \<Longrightarrow> distinct (foldl setAdd acc xs)"
  by (induction xs arbitrary: acc) (auto simp: setAdd_def)

lemma set_foldl_setAdd: "set (foldl setAdd acc xs) = set acc \<union> set xs"
  by (induction xs arbitrary: acc) (auto simp: setAdd_def)

lemma distinct_uniqueInOrder: "distinct (uniqueInOrder xs)"
  by (simp add: uniqueInOrder_def distinct_foldl_setAdd)

lemma set_uniqueInOrder: "set (uniqueInOrder xs) = set xs"
  by (simp add: uniqueInOrder_def set_foldl_setAdd)

lemma uniqueInOrder_snoc: "uniqueInOrder (xs @ [x]) = setAdd (uniqueInOrder xs) x"
  by (simp add: uniqueInOrder_def)

lemma subseq_uniqueInOrder: "subseq (uniqueInOrder xs) xs"
proof (induction xs rule: rev_induct)
  case Nil
  show ?case by (simp add: uniqueInOrder_def)
next
  case (snoc x xs)
  show ?case
  proof (cases "x \<in> set (uniqueInOrder xs)")
    case True
    then have "uniqueInOrder (xs @ [x]) = uniqueInOrder xs"
      by (simp add: uniqueInOrder_snoc setAdd_def)
    with snoc show ?thesis by (simp add: list_emb_prefix)
  next
    case False
    then have "uniqueInOrder (xs @ [x]) = uniqueInOrder xs @ [x]"
      by (simp add: uniqueInOrder_snoc setAdd_def)
    with snoc show ?thesis by (simp add: list_emb_append_mono)
  qed
qed

lemma firstOccurrences_snoc:
  "firstOccurrences (xs @ [x]) = firstOccurrences xs @ (if x \<in> set xs then [] else [x])"
proof -
  have a: "filter (\<lambda>i. (xs @ [x]) ! i \<notin> set (take i (xs @ [x]))) [0..<length xs] =
           filter (\<lambda>i. xs ! i \<notin> set (take i xs)) [0..<length xs]"
    by (rule filter_cong) (auto simp: nth_append)
  have b: "map (\<lambda>i. (xs @ [x]) ! i) (filter (\<lambda>i. xs ! i \<notin> set (take i xs)) [0..<length xs]) =
           map (\<lambda>i. xs ! i) (filter (\<lambda>i. xs ! i \<notin> set (take i xs)) [0..<length xs])"
    by (rule map_cong) (auto simp: nth_append)
  have "firstOccurrences (xs @ [x]) =
          map (\<lambda>i. (xs @ [x]) ! i)
            (filter (\<lambda>i. (xs @ [x]) ! i \<notin> set (take i (xs @ [x]))) [0..<length xs]) @
          (if x \<in> set xs then [] else [x])"
    unfolding firstOccurrences_def by simp
  then show ?thesis
    unfolding a b firstOccurrences_def .
qed

lemma uniqueInOrder_firstOccurrences: "uniqueInOrder xs = firstOccurrences xs"
proof (induction xs rule: rev_induct)
  case Nil
  show ?case by (simp add: uniqueInOrder_def firstOccurrences_def)
next
  case (snoc x xs)
  have "uniqueInOrder (xs @ [x]) = setAdd (uniqueInOrder xs) x"
    by (rule uniqueInOrder_snoc)
  also have "\<dots> = uniqueInOrder xs @ (if x \<in> set xs then [] else [x])"
    by (simp add: setAdd_def set_uniqueInOrder)
  finally show ?case
    by (simp add: snoc firstOccurrences_snoc)
qed

text \<open>
  C7. For every raw list of employees, the normalized list has no duplicates and no
  empty string, is a subsequence of the element-wise trimmed input, consists of the first
  occurrence of each non-empty trimmed value in the order of the input, and holds exactly
  the non-empty trimmed values; an empty input gives an empty output.
\<close>

theorem employeeStep_normalizes:
  "distinct (normalizedEmployees (employeeStep input)) \<and>
   [] \<notin> set (normalizedEmployees (employeeStep input)) \<and>
   subseq (normalizedEmployees (employeeStep input)) (map trim (employees input)) \<and>
   normalizedEmployees (employeeStep input) =
     firstOccurrences (filter (\<lambda>emp. emp \<noteq> []) (map trim (employees input))) \<and>
   set (normalizedEmployees (employeeStep input)) = set (map trim (employees input)) - {[]} \<and>
   normalizedEmployees (employeeStep (input\<lparr>employees := []\<rparr>)) = []"
proof -
  define kept where "kept = filter (\<lambda>emp. emp \<noteq> []) (map trim (employees input))"
  have out: "normalizedEmployees (employeeStep input) = uniqueInOrder kept"
    by (simp add: employeeStep_def kept_def)
  have c1: "distinct (uniqueInOrder kept)"
    by (rule distinct_uniqueInOrder)
  have c2: "[] \<notin> set (uniqueInOrder kept)"
    by (simp add: set_uniqueInOrder kept_def)
  have "subseq (uniqueInOrder kept) kept"
    by (rule subseq_uniqueInOrder)
  moreover have "subseq kept (map trim (employees input))"
    unfolding kept_def by (rule subseq_filter_left)
  ultimately have c3: "subseq (uniqueInOrder kept) (map trim (employees input))"
    by (rule subseq_order.order_trans)
  have c4: "uniqueInOrder kept = firstOccurrences kept"
    by (rule uniqueInOrder_firstOccurrences)
  have c5: "set (uniqueInOrder kept) = set (map trim (employees input)) - {[]}"
    unfolding set_uniqueInOrder kept_def by auto
  have c6: "normalizedEmployees (employeeStep (input\<lparr>employees := []\<rparr>)) = []"
    by (simp add: employeeStep_def uniqueInOrder_def)
  show ?thesis
    unfolding out using c1 c2 c3 c4 c5 c6 unfolding kept_def by blast
qed

lemma employeeStep_example:
  "normalizedEmployees (employeeStep \<lparr>employees = ['' Al '', ''Bo'', ''Al'', ''  ''], lunchMenu = []\<rparr>) =
     [''Al'', ''Bo'']"
  by code_simp

theorem employeeStep_normalizes_witness:
  "distinct (normalizedEmployees (employeeStep \<lparr>employees = ['' Al '', ''Bo'', ''Al'', ''  ''], lunchMenu = []\<rparr>)) \<and>
   normalizedEmployees (employeeStep \<lparr>employees = ['' Al '', ''Bo'', ''Al'', ''  ''], lunchMenu = []\<rparr>) =
     [''Al'', ''Bo'']"
  using employeeStep_normalizes [of "\<lparr>employees = ['' Al '', ''Bo'', ''Al'', ''  ''], lunchMenu = []\<rparr>"]
    employeeStep_example
  by blast

section \<open>The manager step: precedence of the decision\<close>

text \<open>
  C1. For every risk level and budget outcome the decision is taken by the first rule
  that matches: high risk rejects, whatever the budget; otherwise an order over budget is
  rejected; otherwise medium risk is approved with the caution message; otherwise (low risk,
  within budget) the order is fully approved.
\<close>

theorem managerStep_precedence:
  "(riskLevel hr = High \<longrightarrow>
      \<not> approved (managerStep numToString hr fin) \<and>
      finalDecision (managerStep numToString hr fin) =
        ''Lunch order rejected due to high health/safety risk'') \<and>
   (riskLevel hr \<noteq> High \<and> \<not> withinBudget fin \<longrightarrow>
      \<not> approved (managerStep numToString hr fin) \<and>
      finalDecision (managerStep numToString hr fin) =
        ''Lunch order rejected due to budget constraints'') \<and>
   (riskLevel hr = Medium \<and> withinBudget fin \<longrightarrow>
      approved (managerStep numToString hr fin) \<and>
      message (managerStep numToString hr fin) =
        ''APPROVED with caution: Medium risk detected. '' @ join '', '' (reasons hr) @
        ''. Please review sanitized menu.'' \<and>
      finalDecision (managerStep numToString hr fin) =
        ''Lunch order approved with caution - please review the sanitized menu'') \<and>
   (riskLevel hr = Low \<and> withinBudget fin \<longrightarrow>
      approved (managerStep numToString hr fin) \<and>
      finalDecision (managerStep numToString hr fin) = ''Lunch order fully approved'')"
  by (cases "riskLevel hr") (simp_all add: managerStep_def)

theorem managerStep_precedence_witness:
  "\<not> approved (managerStep (\<lambda>n. ''0'')
       \<lparr>sanitizedMenu = [], riskLevel = High, reasons = [], threadId = None, runId = None\<rparr>
       \<lparr>totalCost = Fin 0, budget = Fin 150, withinBudget = True, costPerPerson = Fin 15\<rparr>) \<and>
   \<not> approved (managerStep (\<lambda>n. ''0'')
       \<lparr>sanitizedMenu = [], riskLevel = Medium, reasons = [], threadId = None, runId = None\<rparr>
       \<lparr>totalCost = Fin 300, budget = Fin 150, withinBudget = False, costPerPerson = Fin 15\<rparr>) \<and>
   approved (managerStep (\<lambda>n. ''0'')
       \<lparr>sanitizedMenu = [], riskLevel = Medium, reasons = [], threadId = None, runId = None\<rparr>
       \<lparr>totalCost = Fin 0, budget = Fin 150, withinBudget = True, costPerPerson = Fin 15\<rparr>) \<and>
   finalDecision (managerStep (\<lambda>n. ''0'')
       \<lparr>sanitizedMenu = [], riskLevel = Low, reasons = [], threadId = None, runId = None\<rparr>
       \<lparr>totalCost = Fin 0, budget = Fin 150, withinBudget = True, costPerPerson = Fin 15\<rparr>) =
     ''Lunch order fully approved''"
  using
    managerStep_precedence [of
      "\<lparr>sanitizedMenu = [], riskLevel = High, reasons = [], threadId = None, runId = None\<rparr>"
      "\<lambda>n. ''0''"
      "\<lparr>totalCost = Fin 0, budget = Fin 150, withinBudget = True, costPerPerson = Fin 15\<rparr>"]
    managerStep_precedence [of
      "\<lparr>sanitizedMenu = [], riskLevel = Medium, reasons = [], threadId = None, runId = None\<rparr>"
      "\<lambda>n. ''0''"
      "\<lparr>totalCost = Fin 300, budget = Fin 150, withinBudget = False, costPerPerson = Fin 15\<rparr>"]
    managerStep_precedence [of
      "\<lparr>sanitizedMenu = [], riskLevel = Medium, reasons = [], threadId = None, runId = None\<rparr>"
      "\<lambda>n. ''0''"
      "\<lparr>totalCost = Fin 0, budget = Fin 150, withinBudget = True, costPerPerson = Fin 15\<rparr>"]
    managerStep_precedence [of
      "\<lparr>sanitizedMenu = [], riskLevel = Low, reasons = [], threadId = None, runId = None\<rparr>"
      "\<lambda>n. ''0''"
      "\<lparr>totalCost = Fin 0, budget = Fin 150, withinBudget = True, costPerPerson = Fin 15\<rparr>"]
  by simp

section \<open>Rounding to a double\<close>

lemma pow2_powr: "pow2 e = 2 powr (real_of_int e)"
proof (cases "0 \<le> e")
  case True
  then show ?thesis
    by (simp add: pow2_def powr_realpow [symmetric])
next
  case False
  then have "2 powr (real_of_int e) = 1 / 2 powr (real (nat (- e)))"
    by (simp add: powr_minus_divide [symmetric])
  with False show ?thesis
    by (simp add: pow2_def powr_realpow [symmetric])
qed

lemma pow2_pos: "0 < pow2 e"
  by (simp add: pow2_powr)

lemma pow2_add: "pow2 (a + b) = pow2 a * pow2 b"
  by (simp add: pow2_powr powr_add)

lemma pow2_0: "pow2 0 = 1" and pow2_1: "pow2 1 = 2"
  by (simp_all add: pow2_def)

lemma pow2_2: "pow2 2 = 4"
  by (simp add: pow2_def)

lemma pow2_split53: "pow2 (b - 52) * pow2 53 = pow2 (b + 1)"
proof -
  have "b - 52 + 53 = b + 1" by simp
  then show ?thesis by (simp only: pow2_add [symmetric])
qed

lemma pow2_split52: "pow2 (b - 52) * pow2 52 = pow2 b"
  by (simp add: pow2_add [symmetric])

lemma pow2_mono: "a \<le> b \<Longrightarrow> pow2 a \<le> pow2 b"
  by (simp add: pow2_powr)

lemma pow2_less_iff: "pow2 a < pow2 b \<longleftrightarrow> a < b"
  by (simp add: pow2_powr)

lemma pow2_nat: "0 \<le> e \<Longrightarrow> pow2 e = 2 ^ nat e"
  by (simp add: pow2_def)

lemma expo_bounds: "0 < x \<Longrightarrow> pow2 (expo x) \<le> x \<and> x < pow2 (expo x + 1)"
proof (induction x rule: expo.induct)
  case (1 x)
  show ?case
  proof (cases "2 \<le> x")
    case True
    with "1.prems" have e: "expo x = expo (x / 2) + 1"
      by (subst expo.simps) simp
    from "1.IH"(1) True "1.prems"
    have "pow2 (expo (x / 2)) \<le> x / 2 \<and> x / 2 < pow2 (expo (x / 2) + 1)"
      by simp
    then show ?thesis
      unfolding e by (simp add: pow2_add pow2_1 pow2_2)
  next
    case False
    show ?thesis
    proof (cases "x < 1")
      case True
      with False "1.prems" have e: "expo x = expo (x * 2) - 1"
        by (subst expo.simps) simp
      from "1.IH"(2) True False "1.prems"
      have "pow2 (expo (x * 2)) \<le> x * 2 \<and> x * 2 < pow2 (expo (x * 2) + 1)"
        by simp
      moreover have "pow2 (expo (x * 2)) = pow2 (expo (x * 2) - 1) * 2"
        using pow2_add [of "expo (x * 2) - 1" 1] by (simp add: pow2_1)
      ultimately show ?thesis
        unfolding e by (simp add: pow2_add pow2_1)
    next
      case False
      with \<open>\<not> 2 \<le> x\<close> "1.prems" have "expo x = 0"
        by (subst expo.simps) simp
      with False \<open>\<not> 2 \<le> x\<close> show ?thesis
        by (simp add: pow2_0 pow2_1)
    qed
  qed
qed

lemma expo_mono:
  assumes "0 < x" "x \<le> y"
  shows "expo x \<le> expo y"
proof (rule ccontr)
  assume "\<not> expo x \<le> expo y"
  then have "expo y + 1 \<le> expo x" by simp
  then have "pow2 (expo y + 1) \<le> pow2 (expo x)" by (rule pow2_mono)
  also have "\<dots> \<le> x" using expo_bounds [OF assms(1)] by simp
  also have "\<dots> \<le> y" by (rule assms)
  also have "\<dots> < pow2 (expo y + 1)" using expo_bounds [of y] assms by simp
  finally show False by simp
qed


lemma roundEven_of_int: "roundEven (of_int n) = n"
  by (simp add: roundEven_def)

lemma roundEven_floor: "\<lfloor>t\<rfloor> \<le> roundEven t \<and> roundEven t \<le> \<lfloor>t\<rfloor> + 1"
  by (simp add: roundEven_def Let_def)

lemma roundEven_mono:
  assumes "s \<le> t"
  shows "roundEven s \<le> roundEven t"
proof (cases "\<lfloor>s\<rfloor> = \<lfloor>t\<rfloor>")
  case True
  with assms have "s - of_int \<lfloor>s\<rfloor> \<le> t - of_int \<lfloor>t\<rfloor>" by simp
  with True show ?thesis
    by (auto simp: roundEven_def Let_def)
next
  case False
  with assms have "\<lfloor>s\<rfloor> + 1 \<le> \<lfloor>t\<rfloor>"
    using floor_mono [of s t] by linarith
  with roundEven_floor [of s] roundEven_floor [of t] show ?thesis
    by linarith
qed

lemma roundEven_minus: "roundEven (- t) = - roundEven t"
proof (cases "t \<in> \<int>")
  case True
  then obtain n where "t = of_int n" by (auto elim: Ints_cases)
  then have "- t = of_int (- n)" by simp
  with \<open>t = of_int n\<close> show ?thesis
    by (simp only: roundEven_of_int)
next
  case False
  then have "t \<noteq> of_int \<lfloor>t\<rfloor>"
    by (metis Ints_of_int)
  then have f: "\<lfloor>- t\<rfloor> = - \<lfloor>t\<rfloor> - 1"
    by (simp add: ceiling_altdef floor_minus)
  have "even (- \<lfloor>t\<rfloor> - 1) = odd \<lfloor>t\<rfloor>" by simp
  then show ?thesis
    unfolding roundEven_def Let_def f by auto
qed

lemma binade_minus: "binade (- x) = binade x"
  by (simp add: binade_def)

lemma gridRound_0: "gridRound 0 = 0"
  by (simp add: gridRound_def roundEven_def)

lemma gridRound_minus: "gridRound (- x) = - gridRound x"
  by (simp add: gridRound_def binade_minus roundEven_minus Let_def)

lemma gridRound_nonneg:
  assumes "0 \<le> x"
  shows "0 \<le> gridRound x"
proof -
  have "0 \<le> x / pow2 (binade x - 52)"
    using assms pow2_pos [of "binade x - 52"] by simp
  then have "roundEven 0 \<le> roundEven (x / pow2 (binade x - 52))"
    by (rule roundEven_mono)
  then have "0 \<le> roundEven (x / pow2 (binade x - 52))"
    by (simp add: roundEven_def)
  then show ?thesis
    using pow2_pos [of "binade x - 52"] by (simp add: gridRound_def Let_def)
qed

lemma gridRound_upper:
  assumes "0 < x"
  shows "gridRound x \<le> pow2 (binade x + 1)"
proof -
  let ?q = "pow2 (binade x - 52)"
  have q: "0 < ?q" by (rule pow2_pos)
  have "x < pow2 (expo x + 1)" using expo_bounds [OF assms] by simp
  also have "\<dots> \<le> pow2 (binade x + 1)"
    using assms by (intro pow2_mono) (simp add: binade_def)
  also have "\<dots> = ?q * pow2 53"
    by (simp only: pow2_split53)
  finally have "x / ?q \<le> pow2 53"
    using q by (simp add: field_simps)
  also have "pow2 53 = of_int (2 ^ 53)" by (simp add: pow2_def)
  finally have "roundEven (x / ?q) \<le> roundEven (of_int (2 ^ 53))"
    by (rule roundEven_mono)
  then have "roundEven (x / ?q) \<le> 2 ^ 53" by (simp only: roundEven_of_int)
  then have "of_int (roundEven (x / ?q)) \<le> (of_int (2 ^ 53) :: real)"
    by (simp only: of_int_le_iff)
  then have "?q * of_int (roundEven (x / ?q)) \<le> ?q * pow2 53"
    using q by (simp add: pow2_def)
  also have "?q * pow2 53 = pow2 (binade x + 1)"
    by (simp only: pow2_split53)
  finally show ?thesis by (simp add: gridRound_def Let_def)
qed

lemma gridRound_lower:
  assumes "0 < x" "binade x = expo x"
  shows "pow2 (binade x) \<le> gridRound x"
proof -
  let ?q = "pow2 (binade x - 52)"
  have q: "0 < ?q" by (rule pow2_pos)
  have "?q * pow2 52 = pow2 (binade x)"
    by (simp only: pow2_split52)
  moreover have "pow2 (binade x) \<le> x" using expo_bounds [OF assms(1)] assms(2) by simp
  ultimately have "pow2 52 \<le> x / ?q"
    using q by (simp add: field_simps)
  moreover have "pow2 52 = of_int (2 ^ 52)" by (simp add: pow2_def)
  ultimately have "roundEven (of_int (2 ^ 52)) \<le> roundEven (x / ?q)"
    by (intro roundEven_mono) simp
  then have "2 ^ 52 \<le> roundEven (x / ?q)" by (simp only: roundEven_of_int)
  then have "(of_int (2 ^ 52) :: real) \<le> of_int (roundEven (x / ?q))"
    by (simp only: of_int_le_iff)
  then have "?q * pow2 52 \<le> ?q * of_int (roundEven (x / ?q))"
    using q by (simp add: pow2_def)
  with \<open>?q * pow2 52 = pow2 (binade x)\<close> show ?thesis
    by (simp add: gridRound_def Let_def)
qed

lemma gridRound_mono_pos:
  assumes "0 < x" "x \<le> y"
  shows "gridRound x \<le> gridRound y"
proof -
  have y: "0 < y" using assms by simp
  have e: "expo \<bar>x\<bar> \<le> expo \<bar>y\<bar>" using assms by (intro expo_mono) simp_all
  then have b: "binade x \<le> binade y" by (simp add: binade_def)
  show ?thesis
  proof (cases "binade x = binade y")
    case True
    let ?q = "pow2 (binade y - 52)"
    have q: "0 < ?q" by (rule pow2_pos)
    then have "x / ?q \<le> y / ?q" using assms by (simp add: divide_right_mono)
    then have "roundEven (x / ?q) \<le> roundEven (y / ?q)" by (rule roundEven_mono)
    then have "?q * of_int (roundEven (x / ?q)) \<le> ?q * of_int (roundEven (y / ?q))"
      using q by simp
    with True show ?thesis by (simp add: gridRound_def Let_def)
  next
    case False
    with b have lt: "binade x < binade y" by simp
    then have "- 1022 < binade y" by (simp add: binade_def)
    then have unclamped: "binade y = expo y" using y by (simp add: binade_def)
    have "gridRound x \<le> pow2 (binade x + 1)" by (rule gridRound_upper [OF assms(1)])
    also have "\<dots> \<le> pow2 (binade y)" using lt by (intro pow2_mono) simp
    also have "\<dots> \<le> gridRound y" by (rule gridRound_lower [OF y unclamped])
    finally show ?thesis .
  qed
qed

lemma gridRound_mono:
  assumes "x \<le> y"
  shows "gridRound x \<le> gridRound y"
proof -
  consider "0 < x" | "x \<le> 0" "0 \<le> y" | "y < 0" by linarith
  then show ?thesis
  proof cases
    case 1
    then show ?thesis using assms by (rule gridRound_mono_pos)
  next
    case 2
    have "0 \<le> gridRound (- x)" using 2 by (intro gridRound_nonneg) simp
    then have "gridRound x \<le> 0" by (simp add: gridRound_minus)
    also have "0 \<le> gridRound y" using 2 by (intro gridRound_nonneg)
    finally show ?thesis .
  next
    case 3
    then have "gridRound (- y) \<le> gridRound (- x)"
      using assms by (intro gridRound_mono_pos) simp_all
    then show ?thesis by (simp add: gridRound_minus)
  qed
qed

lemma roundDouble_mono: "x \<le> y \<Longrightarrow> num_le (roundDouble x) (roundDouble y)"
  using gridRound_mono [of x y] by (simp add: roundDouble_def Let_def)

lemma roundDouble_not_NaN: "roundDouble x \<noteq> NaN"
  by (simp add: roundDouble_def Let_def)

lemma gridRound_of_int_pos:
  assumes "0 < n" "n < 2 ^ 53"
  shows "gridRound (of_int n) = of_int n"
proof -
  let ?x = "of_int n :: real"
  have x: "0 < ?x" "pow2 0 \<le> ?x" "?x < pow2 53"
    using assms by (simp_all add: pow2_def)
  from expo_bounds [OF x(1)]
  have lo: "pow2 (expo ?x) \<le> ?x" and hi: "?x < pow2 (expo ?x + 1)"
    by simp_all
  have "pow2 0 < pow2 (expo ?x + 1)" using x(2) hi by simp
  then have e0: "0 \<le> expo ?x" by (simp add: pow2_less_iff)
  have "pow2 (expo ?x) < pow2 53" using lo x(3) by simp
  then have e52: "expo ?x \<le> 52" by (simp add: pow2_less_iff)
  have b: "binade ?x = expo ?x"
    using e0 x(1) by (simp add: binade_def)
  define k where "k = nat (52 - expo ?x)"
  have "pow2 (expo ?x - 52) * 2 ^ k = pow2 (expo ?x - 52) * pow2 (int k)"
    by (simp add: pow2_def)
  also have "\<dots> = pow2 0"
    using e52 by (simp add: pow2_add [symmetric] k_def)
  finally have q: "pow2 (expo ?x - 52) * 2 ^ k = 1"
    by (simp add: pow2_0)
  then have q': "pow2 (expo ?x - 52) = 1 / 2 ^ k"
    by (simp add: field_simps)
  have "?x / pow2 (expo ?x - 52) = of_int (n * 2 ^ k)"
    by (simp add: q')
  then have "roundEven (?x / pow2 (expo ?x - 52)) = n * 2 ^ k"
    by (simp only: roundEven_of_int)
  then show ?thesis
    by (simp add: gridRound_def Let_def b q')
qed

lemma gridRound_of_int:
  assumes "\<bar>n\<bar> < 2 ^ 53"
  shows "gridRound (of_int n) = of_int n"
proof -
  consider "n = 0" | "0 < n" | "n < 0" by linarith
  then show ?thesis
  proof cases
    case 1
    then show ?thesis by (simp add: gridRound_0)
  next
    case 2
    with assms show ?thesis by (intro gridRound_of_int_pos) simp_all
  next
    case 3
    with assms have "gridRound (of_int (- n)) = of_int (- n)"
      by (intro gridRound_of_int_pos) simp_all
    then show ?thesis by (simp add: gridRound_minus)
  qed
qed

lemma roundDouble_of_int:
  assumes "\<bar>n\<bar> < 2 ^ 53"
  shows "roundDouble (of_int n) = Fin (of_int n)"
proof -
  have "\<bar>of_int n :: real\<bar> < 2 ^ 53"
    using assms by (metis of_int_abs of_int_less_iff of_int_numeral of_int_power)
  also have "(2::real) ^ 53 \<le> 2 ^ 1024" by (rule power_increasing) simp_all
  finally have "\<not> 2 ^ 1024 \<le> (of_int n :: real)" "\<not> (of_int n :: real) \<le> - (2 ^ 1024)"
    by linarith+
  then show ?thesis
    by (simp add: roundDouble_def gridRound_of_int [OF assms] Let_def)
qed

lemma roundDouble_0: "roundDouble 0 = Fin 0"
  using roundDouble_of_int [of 0] by simp

lemma roundDouble_numeral:
  "numeral w < (2::int) ^ 53 \<Longrightarrow> roundDouble (numeral w) = Fin (numeral w)"
  using roundDouble_of_int [of "numeral w"] by simp

lemma roundDouble_neg_numeral:
  "numeral w < (2::int) ^ 53 \<Longrightarrow> roundDouble (- numeral w) = Fin (- numeral w)"
  using roundDouble_of_int [of "- numeral w"] by simp

section \<open>The finance step\<close>

lemma num_gt_not_le: "x \<noteq> NaN \<Longrightarrow> y \<noteq> NaN \<Longrightarrow> num_gt x y = (\<not> num_le x y)"
  by (cases x; cases y) auto

lemma num_le_trans: "num_le x y \<Longrightarrow> num_le y z \<Longrightarrow> num_le x z"
  by (cases x; cases y; cases z) auto

lemma orElse_finite:
  "x \<noteq> PosInf \<Longrightarrow> x \<noteq> NegInf \<Longrightarrow> \<exists>rate. orElse x (Fin 15) = Fin rate"
  by (cases x) (auto simp: orElse_def)

text \<open>
  C8, as stated, fails: a head count of zero is not within budget for every configuration.
  The budget is \<open>HEADCOUNT\<close> times the rate, whatever \<open>HEADCOUNT\<close> is, and zero is compared
  with it like any other cost. With \<open>HEADCOUNT = -1\<close> the budget is negative, and with
  \<open>HEADCOUNT\<close> unset it is \<open>NaN\<close>; in both cases no cost is within it.
\<close>

theorem financeStep_zero_headcount_counterexample:
  "withinBudget (financeStep \<lparr>LUNCH_BUDGET_PER_PERSON = Fin 15, HEADCOUNT = Fin (- 1)\<rparr>
                   \<lparr>normalizedEmployees = []\<rparr>) = False \<and>
   budget (financeStep \<lparr>LUNCH_BUDGET_PER_PERSON = Fin 15, HEADCOUNT = Fin (- 1)\<rparr>
                   \<lparr>normalizedEmployees = []\<rparr>) = Fin (- 15) \<and>
   withinBudget (financeStep \<lparr>LUNCH_BUDGET_PER_PERSON = NaN, HEADCOUNT = NaN\<rparr>
                   \<lparr>normalizedEmployees = []\<rparr>) = False"
  by (simp add: financeStep_def orElse_def Let_def roundDouble_0 roundDouble_neg_numeral)

text \<open>
  C8 (amended). \<open>financeStep\<close> is a total function: nothing in it throws. For every
  configuration in which the per-person rate is finite and \<open>HEADCOUNT\<close> times the rate
  (the rate configured, or 15 when none is) is a number not below zero, a head count of
  zero gives a total cost of zero and is within budget.
\<close>

theorem financeStep_zero_headcount:
  assumes "normalizedEmployees employeeResult = []"
    and "LUNCH_BUDGET_PER_PERSON env \<noteq> PosInf" and "LUNCH_BUDGET_PER_PERSON env \<noteq> NegInf"
    and "num_le (Fin 0)
           (num_mul (HEADCOUNT env) (orElse (LUNCH_BUDGET_PER_PERSON env) (Fin 15)))"
  shows "totalCost (financeStep env employeeResult) = Fin 0 \<and>
         withinBudget (financeStep env employeeResult)"
proof -
  obtain rate where rate: "orElse (LUNCH_BUDGET_PER_PERSON env) (Fin 15) = Fin rate"
    using orElse_finite assms(2,3) by blast
  have cost: "totalCost (financeStep env employeeResult) = Fin 0"
    using assms(1) by (simp add: financeStep_def Let_def rate roundDouble_0)
  have "withinBudget (financeStep env employeeResult) =
      num_le (totalCost (financeStep env employeeResult))
        (num_mul (HEADCOUNT env) (orElse (LUNCH_BUDGET_PER_PERSON env) (Fin 15)))"
    by (simp add: financeStep_def Let_def)
  with cost assms(4) show ?thesis by simp
qed

theorem financeStep_zero_headcount_witness:
  "totalCost (financeStep \<lparr>LUNCH_BUDGET_PER_PERSON = Fin 15, HEADCOUNT = Fin 10\<rparr>
                \<lparr>normalizedEmployees = []\<rparr>) = Fin 0 \<and>
   withinBudget (financeStep \<lparr>LUNCH_BUDGET_PER_PERSON = Fin 15, HEADCOUNT = Fin 10\<rparr>
                   \<lparr>normalizedEmployees = []\<rparr>)"
proof -
  have "num_le (Fin 0)
      (num_mul (HEADCOUNT \<lparr>LUNCH_BUDGET_PER_PERSON = Fin 15, HEADCOUNT = Fin 10\<rparr>)
         (orElse (LUNCH_BUDGET_PER_PERSON \<lparr>LUNCH_BUDGET_PER_PERSON = Fin 15, HEADCOUNT = Fin 10\<rparr>)
            (Fin 15)))"
    by (simp add: orElse_def roundDouble_numeral)
  then show ?thesis
    by (intro financeStep_zero_headcount) simp_all
qed

lemma financeStep_zero_headcount_nonneg:
  assumes "normalizedEmployees employeeResult = []"
    and "HEADCOUNT env = Fin h" "0 \<le> h"
    and "orElse (LUNCH_BUDGET_PER_PERSON env) (Fin 15) = Fin rate" "0 \<le> rate"
  shows "totalCost (financeStep env employeeResult) = Fin 0 \<and>
         withinBudget (financeStep env employeeResult)"
proof -
  have "0 \<le> h * rate" using assms(3,5) by simp
  then have "num_le (roundDouble 0) (roundDouble (h * rate))" by (rule roundDouble_mono)
  then show ?thesis
    using assms(1,2,4) by (simp add: financeStep_def Let_def roundDouble_0)
qed

text \<open>
  C9, as stated, fails. With \<open>HEADCOUNT\<close> unset the budget limit is \<open>NaN\<close>: no cost is
  within it, and no cost is greater than it either, so \<open>withinBudget\<close> is false without
  the cost being greater than the limit.
\<close>

theorem withinBudget_iff_counterexample:
  "withinBudget (financeStep \<lparr>LUNCH_BUDGET_PER_PERSON = Fin 15, HEADCOUNT = NaN\<rparr>
                   \<lparr>normalizedEmployees = [''a'', ''b'']\<rparr>) = False \<and>
   num_gt (totalCost (financeStep \<lparr>LUNCH_BUDGET_PER_PERSON = Fin 15, HEADCOUNT = NaN\<rparr>
                        \<lparr>normalizedEmployees = [''a'', ''b'']\<rparr>))
          (budget (financeStep \<lparr>LUNCH_BUDGET_PER_PERSON = Fin 15, HEADCOUNT = NaN\<rparr>
                     \<lparr>normalizedEmployees = [''a'', ''b'']\<rparr>)) = False \<and>
   totalCost (financeStep \<lparr>LUNCH_BUDGET_PER_PERSON = Fin 15, HEADCOUNT = NaN\<rparr>
                \<lparr>normalizedEmployees = [''a'', ''b'']\<rparr>) = Fin 30 \<and>
   budget (financeStep \<lparr>LUNCH_BUDGET_PER_PERSON = Fin 15, HEADCOUNT = NaN\<rparr>
             \<lparr>normalizedEmployees = [''a'', ''b'']\<rparr>) = NaN"
  by (simp add: financeStep_def orElse_def Let_def roundDouble_numeral)

text \<open>
  C9 (amended). For every head count and every positive finite per-person rate (the one
  configured, or 15 when none is): the total cost is the product of head count and rate
  and the budget limit the product of \<open>HEADCOUNT\<close> and rate, each rounded to a double as
  the program computes them; when \<open>HEADCOUNT\<close> is a number (not \<open>NaN\<close>), \<open>withinBudget\<close> is
  false exactly when the total cost is greater than the budget limit; and, whatever
  \<open>HEADCOUNT\<close> is, \<open>withinBudget\<close> is antitone in the head count: if the larger head
  count is within budget, so is the smaller one.
\<close>

theorem withinBudget_antitone:
  assumes rate: "orElse (LUNCH_BUDGET_PER_PERSON env) (Fin 15) = Fin rate" "0 < rate"
  shows "totalCost (financeStep env e) =
           roundDouble (real (length (normalizedEmployees e)) * rate) \<and>
         budget (financeStep env e) = num_mul (HEADCOUNT env) (Fin rate) \<and>
         (HEADCOUNT env \<noteq> NaN \<longrightarrow>
            (\<not> withinBudget (financeStep env e)) =
              num_gt (totalCost (financeStep env e)) (budget (financeStep env e))) \<and>
         (length (normalizedEmployees e) \<le> length (normalizedEmployees e') \<longrightarrow>
            withinBudget (financeStep env e') \<longrightarrow> withinBudget (financeStep env e))"
proof -
  have cost: "totalCost (financeStep env x) =
      roundDouble (real (length (normalizedEmployees x)) * rate)" for x
    by (simp add: financeStep_def rate Let_def)
  have bud: "budget (financeStep env x) = num_mul (HEADCOUNT env) (Fin rate)" for x
    by (simp add: financeStep_def rate Let_def)
  have within: "withinBudget (financeStep env x) =
      num_le (roundDouble (real (length (normalizedEmployees x)) * rate))
        (num_mul (HEADCOUNT env) (Fin rate))" for x
    by (simp add: financeStep_def rate Let_def)
  have iff: "HEADCOUNT env \<noteq> NaN \<longrightarrow>
            (\<not> withinBudget (financeStep env e)) =
              num_gt (totalCost (financeStep env e)) (budget (financeStep env e))"
  proof
    assume h: "HEADCOUNT env \<noteq> NaN"
    have "num_mul (HEADCOUNT env) (Fin rate) \<noteq> NaN"
      using h rate(2) roundDouble_not_NaN by (cases "HEADCOUNT env") auto
    then show "(\<not> withinBudget (financeStep env e)) =
        num_gt (totalCost (financeStep env e)) (budget (financeStep env e))"
      unfolding within cost bud
      by (simp add: num_gt_not_le roundDouble_not_NaN)
  qed
  have anti: "length (normalizedEmployees e) \<le> length (normalizedEmployees e') \<longrightarrow>
            withinBudget (financeStep env e') \<longrightarrow> withinBudget (financeStep env e)"
  proof (intro impI)
    assume le: "length (normalizedEmployees e) \<le> length (normalizedEmployees e')"
      and w: "withinBudget (financeStep env e')"
    from le rate(2) have "real (length (normalizedEmployees e)) * rate \<le>
        real (length (normalizedEmployees e')) * rate"
      by (simp add: mult_right_mono)
    then have "num_le (roundDouble (real (length (normalizedEmployees e)) * rate))
        (roundDouble (real (length (normalizedEmployees e')) * rate))"
      by (rule roundDouble_mono)
    then show "withinBudget (financeStep env e)"
      using w unfolding within by (rule num_le_trans)
  qed
  show ?thesis using cost bud iff anti by blast
qed

theorem withinBudget_antitone_witness:
  "withinBudget (financeStep \<lparr>LUNCH_BUDGET_PER_PERSON = NaN, HEADCOUNT = Fin 10\<rparr>
                   \<lparr>normalizedEmployees = [''a'', ''b'']\<rparr>) \<and>
   \<not> withinBudget (financeStep \<lparr>LUNCH_BUDGET_PER_PERSON = Fin 15, HEADCOUNT = Fin 1\<rparr>
                   \<lparr>normalizedEmployees = [''a'', ''b'']\<rparr>) \<and>
   num_gt (totalCost (financeStep \<lparr>LUNCH_BUDGET_PER_PERSON = Fin 15, HEADCOUNT = Fin 1\<rparr>
                   \<lparr>normalizedEmployees = [''a'', ''b'']\<rparr>))
     (budget (financeStep \<lparr>LUNCH_BUDGET_PER_PERSON = Fin 15, HEADCOUNT = Fin 1\<rparr>
                   \<lparr>normalizedEmployees = [''a'', ''b'']\<rparr>))"
  using withinBudget_antitone [of "\<lparr>LUNCH_BUDGET_PER_PERSON = NaN, HEADCOUNT = Fin 10\<rparr>" 15
      "\<lparr>normalizedEmployees = [''a'', ''b'']\<rparr>" "\<lparr>normalizedEmployees = [''a'', ''b'', ''c'']\<rparr>"]
    withinBudget_antitone [of "\<lparr>LUNCH_BUDGET_PER_PERSON = Fin 15, HEADCOUNT = Fin 1\<rparr>" 15
      "\<lparr>normalizedEmployees = [''a'', ''b'']\<rparr>" "\<lparr>normalizedEmployees = [''a'', ''b'', ''c'']\<rparr>"]
  by (simp add: financeStep_def orElse_def Let_def roundDouble_numeral)

section \<open>The HR step: the fallback and the advisory result\<close>

lemma fallbackHRStep_fields:
  "sanitizedMenu (fallbackHRStep input) = sanitized (sanitizeMenuBasedOnPolicy (lunchMenu input))"
  "threadId (fallbackHRStep input) = None"
  "runId (fallbackHRStep input) = None"
  by (simp_all add: fallbackHRStep_def Let_def)

lemma advisoryResult_fields:
  "sanitizedMenu (advisoryResult input response thread_id run_id) =
     sanitized (sanitizeMenuBasedOnPolicy (lunchMenu input))"
  "riskLevel (advisoryResult input response thread_id run_id) = parseRiskLevel response"
  "threadId (advisoryResult input response thread_id run_id) = Some thread_id"
  "runId (advisoryResult input response thread_id run_id) = Some run_id"
  by (simp_all add: advisoryResult_def Let_def)

lemma fallbackHRStep_riskLevel:
  "riskLevel (fallbackHRStep input) = ruleOnlyRisk (lunchMenu input)"
  by (auto simp add: fallbackHRStep_def ruleOnlyRisk_def Let_def list_ex_iff)

lemma andThen_Inr: "(andThen call rest = Inr r) = (\<exists>v. call = Inr v \<and> rest v = Inr r)"
  by (cases call) (simp_all add: andThen_def)

lemma afterPolling_result:
  "afterPolling w input thread_id run_id polled = Inr result \<Longrightarrow>
   result = fallbackHRStep input \<or>
   (\<exists>response. response \<noteq> [] \<and> result = advisoryResult input response thread_id run_id)"
  by (auto simp: afterPolling_def andThen_def Let_def split: if_splits sum.splits list.splits)

lemma hrStep_try_result:
  "hrStep_try w input = Inr result \<Longrightarrow>
   result = fallbackHRStep input \<or>
   (\<exists>response thread_id run_id. response \<noteq> [] \<and>
      threads_create w = Inr thread_id \<and> runs_create w = Inr run_id \<and>
      result = advisoryResult input response thread_id run_id)"
  unfolding hrStep_try_def
  by (auto simp: andThen_Inr split: if_splits dest: afterPolling_result)

lemma hrStep_catch: "hrStep_try w input = Inl error \<Longrightarrow> hrStep w input = Inr (fallbackHRStep input)"
  by (simp add: hrStep_def)

lemma hrStep_returns: "\<exists>result. hrStep w input = Inr result"
  by (simp add: hrStep_def split: sum.splits)

lemma hrStep_result:
  "hrStep w input = Inr result \<Longrightarrow>
   result = fallbackHRStep input \<or>
   (\<exists>response thread_id run_id. response \<noteq> [] \<and>
      threads_create w = Inr thread_id \<and> runs_create w = Inr run_id \<and>
      result = advisoryResult input response thread_id run_id)"
  unfolding hrStep_def
  by (auto split: sum.splits dest: hrStep_try_result)

text \<open>
  C2. When the advisory path is not used (the endpoint or the agent id is not
  configured, or the credential is not valid), the result of \<open>hrStep\<close> is the fallback:
  its risk level is the rule-only classification of the menu, and it has neither a thread
  nor a run identifier.
\<close>

theorem hrStep_fallback_when_advisory_unused:
  assumes "unset (AZURE_AI_PROJECT_ENDPOINT w) \<or> unset (AZURE_AI_AGENT_ID w) \<or>
           \<not> validateAzureCredentials w"
  shows "hrStep w input = Inr (fallbackHRStep input) \<and>
         riskLevel (fallbackHRStep input) = ruleOnlyRisk (lunchMenu input) \<and>
         threadId (fallbackHRStep input) = None \<and> runId (fallbackHRStep input) = None"
proof -
  have "hrStep w input = Inr (fallbackHRStep input)"
  proof (cases "unset (AZURE_AI_PROJECT_ENDPOINT w) \<or> unset (AZURE_AI_AGENT_ID w)")
    case True
    then have "hrStep_try w input = Inr (fallbackHRStep input)"
      unfolding hrStep_try_def by simp
    then show ?thesis by (simp add: hrStep_def)
  next
    case False
    with assms have "\<not> validateAzureCredentials w" by blast
    with False have "hrStep_try w input =
        andThen (newCredential w) (\<lambda>credential. Inr (fallbackHRStep input))"
      unfolding hrStep_try_def by simp
    then show ?thesis
      by (cases "newCredential w") (simp_all add: hrStep_def andThen_def)
  qed
  then show ?thesis
    by (simp add: fallbackHRStep_riskLevel fallbackHRStep_fields)
qed

lemma ruleOnlyRisk_example: "ruleOnlyRisk [''Cigar'', ''Salad''] = High"
  by code_simp

theorem hrStep_fallback_when_advisory_unused_witness:
  "unset (AZURE_AI_PROJECT_ENDPOINT
      ((respondingWorld (\<lambda>n. Inr ''completed'') ''ok'')\<lparr>AZURE_AI_PROJECT_ENDPOINT := None\<rparr>)) \<and>
   hrStep ((respondingWorld (\<lambda>n. Inr ''completed'') ''ok'')\<lparr>AZURE_AI_PROJECT_ENDPOINT := None\<rparr>)
     \<lparr>employees = [], lunchMenu = [''Cigar'', ''Salad'']\<rparr> =
     Inr (fallbackHRStep \<lparr>employees = [], lunchMenu = [''Cigar'', ''Salad'']\<rparr>) \<and>
   riskLevel (fallbackHRStep \<lparr>employees = [], lunchMenu = [''Cigar'', ''Salad'']\<rparr>) = High"
proof -
  have u: "unset (AZURE_AI_PROJECT_ENDPOINT
      ((respondingWorld (\<lambda>n. Inr ''completed'') ''ok'')\<lparr>AZURE_AI_PROJECT_ENDPOINT := None\<rparr>))"
    by (simp add: unset_def)
  from hrStep_fallback_when_advisory_unused [of
      "(respondingWorld (\<lambda>n. Inr ''completed'') ''ok'')\<lparr>AZURE_AI_PROJECT_ENDPOINT := None\<rparr>"
      "\<lparr>employees = [], lunchMenu = [''Cigar'', ''Salad'']\<rparr>"] u
  show ?thesis by (simp add: ruleOnlyRisk_example)
qed

text \<open>
  C10. No item that matches one of the three policy predicates survives: every item of
  the sanitizer's output, of the fallback result, of the advisory result, and so of the
  result \<open>hrStep\<close> returns in any world, is free of tobacco, hard liquor and major
  allergens.
\<close>

theorem sanitized_items_pass_policy:
  "(\<forall>item \<in> set (sanitized (sanitizeMenuBasedOnPolicy menu)).
      \<not> containsTobacco item \<and> \<not> containsHardLiquor item \<and> \<not> containsMajorAllergens item) \<and>
   (\<forall>item \<in> set (sanitizedMenu (fallbackHRStep input)).
      \<not> containsTobacco item \<and> \<not> containsHardLiquor item \<and> \<not> containsMajorAllergens item) \<and>
   (\<forall>item \<in> set (sanitizedMenu (advisoryResult input response thread_id run_id)).
      \<not> containsTobacco item \<and> \<not> containsHardLiquor item \<and> \<not> containsMajorAllergens item) \<and>
   (\<exists>result. hrStep w input = Inr result \<and>
      (\<forall>item \<in> set (sanitizedMenu result).
         \<not> containsTobacco item \<and> \<not> containsHardLiquor item \<and> \<not> containsMajorAllergens item))"
proof -
  have s: "\<forall>item \<in> set (sanitized (sanitizeMenuBasedOnPolicy m)).
      \<not> containsTobacco item \<and> \<not> containsHardLiquor item \<and> \<not> containsMajorAllergens item" for m
    by (simp add: sanitized_filter)
  obtain result where r: "hrStep w input = Inr result"
    using hrStep_returns by blast
  from hrStep_result [OF r]
  have "sanitizedMenu result = sanitized (sanitizeMenuBasedOnPolicy (lunchMenu input))"
    by (auto simp: fallbackHRStep_fields advisoryResult_fields)
  with r s [of "lunchMenu input"] have "\<exists>result. hrStep w input = Inr result \<and>
      (\<forall>item \<in> set (sanitizedMenu result).
         \<not> containsTobacco item \<and> \<not> containsHardLiquor item \<and> \<not> containsMajorAllergens item)"
    by simp
  then show ?thesis
    using s [of menu] s [of "lunchMenu input"]
    by (simp add: fallbackHRStep_fields advisoryResult_fields)
qed


theorem sanitized_items_pass_policy_witness:
  "sanitized (sanitizeMenuBasedOnPolicy [''Peanut pie'', ''Rice'', ''Cigar and Rum'']) = [''Rice''] \<and>
   \<not> containsTobacco ''Rice'' \<and> \<not> containsHardLiquor ''Rice'' \<and>
   \<not> containsMajorAllergens ''Rice''"
proof -
  have s: "sanitized (sanitizeMenuBasedOnPolicy [''Peanut pie'', ''Rice'', ''Cigar and Rum'']) =
      [''Rice'']"
    by (rule sanitizer_example [THEN conjunct1])
  have "\<forall>item \<in> set (sanitized (sanitizeMenuBasedOnPolicy [''Peanut pie'', ''Rice'', ''Cigar and Rum''])).
      \<not> containsTobacco item \<and> \<not> containsHardLiquor item \<and> \<not> containsMajorAllergens item"
    by (rule sanitized_items_pass_policy [of "[''Peanut pie'', ''Rice'', ''Cigar and Rum'']"
      "\<lparr>employees = [], lunchMenu = [''Rice'']\<rparr>" "''ok''" "''thread_1''" "''run_1''"
      "respondingWorld (\<lambda>n. Inr ''completed'') ''ok''", THEN conjunct1])
  then have "\<not> containsTobacco ''Rice'' \<and> \<not> containsHardLiquor ''Rice'' \<and>
      \<not> containsMajorAllergens ''Rice''"
    unfolding s by (simp only: list.set ball_simps simp_thms)
  with s show ?thesis by (rule conjI)
qed

section \<open>The polling loop\<close>

lemma pollLoop_stop:
  "\<not> pending runStatus \<or> maxAttempts \<le> attempts \<Longrightarrow>
   pollLoop get runStatus attempts = Inr (runStatus, attempts)"
  by (subst pollLoop.simps) (auto simp: pending_def)

lemma pollLoop_step:
  "pending runStatus \<Longrightarrow> attempts < maxAttempts \<Longrightarrow> get (attempts + 1) = Inr status \<Longrightarrow>
   pollLoop get runStatus attempts = pollLoop get status (attempts + 1)"
  by (subst pollLoop.simps) (simp add: pending_def)

lemma pollLoop_throw:
  "pending runStatus \<Longrightarrow> attempts < maxAttempts \<Longrightarrow> get (attempts + 1) = Inl error \<Longrightarrow>
   pollLoop get runStatus attempts = Inl error"
  by (subst pollLoop.simps) (simp add: pending_def)

lemma pollLoop_pending_run:
  assumes "d = k - a" "a < k" "k \<le> maxAttempts" "pending s"
    and "\<forall>i. a < i \<and> i < k \<longrightarrow> (\<exists>s'. get i = Inr s' \<and> pending s')"
    and "get k = Inr t"
  shows "pollLoop get s a = pollLoop get t k"
  using assms
proof (induction d arbitrary: a s)
  case 0
  then show ?case by simp
next
  case (Suc d)
  have a_lt: "a < maxAttempts" using Suc.prems by simp
  show ?case
  proof (cases "a + 1 = k")
    case True
    with Suc.prems have "get (a + 1) = Inr t" by simp
    from pollLoop_step [of s a get t, OF \<open>pending s\<close> a_lt this] True show ?thesis by simp
  next
    case False
    with Suc.prems have lt: "a + 1 < k" by simp
    with Suc.prems obtain s' where s': "get (a + 1) = Inr s'" "pending s'"
      by (metis less_add_one)
    have "pollLoop get s' (a + 1) = pollLoop get t k"
    proof (rule Suc.IH)
      show "d = k - (a + 1)" using Suc.prems by simp
      show "a + 1 < k" by (rule lt)
      show "k \<le> maxAttempts" by (rule Suc.prems)
      show "pending s'" by (rule s')
      show "\<forall>i. a + 1 < i \<and> i < k \<longrightarrow> (\<exists>s'. get i = Inr s' \<and> pending s')"
        using Suc.prems by simp
      show "get k = Inr t" by (rule Suc.prems)
    qed
    with pollLoop_step [of s a get s', OF \<open>pending s\<close> a_lt s'(1)] show ?thesis by simp
  qed
qed

text \<open>
  The run is pending at the calls \<open>0, ..., k - 1\<close> and call \<open>k\<close> reports \<open>status\<close>: if
  \<open>status\<close> is final or \<open>k\<close> is the ceiling, the loop ends there with \<open>k\<close> attempts.
\<close>

lemma pollLoop_ends_at:
  assumes "k \<le> maxAttempts"
    and "\<forall>i<k. \<exists>s. get i = Inr s \<and> pending s"
    and "get k = Inr status"
    and "\<not> pending status \<or> k = maxAttempts"
    and "get 0 = Inr status0"
  shows "pollLoop get status0 0 = Inr (status, k)"
proof (cases "k = 0")
  case True
  with assms have "status0 = status" by simp
  with assms True show ?thesis
    by (simp add: pollLoop_stop)
next
  case False
  then have "0 < k" by simp
  moreover from assms \<open>0 < k\<close> have "pending status0" by fastforce
  moreover from assms have "\<forall>i. 0 < i \<and> i < k \<longrightarrow> (\<exists>s'. get i = Inr s' \<and> pending s')" by simp
  ultimately have "pollLoop get status0 0 = pollLoop get status k"
    using assms by (intro pollLoop_pending_run [where d = "k - 0"]) simp_all
  also have "\<dots> = Inr (status, k)"
    using assms by (intro pollLoop_stop) auto
  finally show ?thesis .
qed

lemma hrStep_try_serviceUp:
  assumes "serviceUp w thread_id run_id"
    and "runs_get w 0 = Inr status0"
    and "pollLoop (runs_get w) status0 0 = Inr polled"
  shows "hrStep_try w input = afterPolling w input thread_id run_id polled"
  using assms by (simp add: hrStep_try_def serviceUp_def andThen_def)

lemma hrStep_completed_before_ceiling:
  assumes up: "serviceUp w thread_id run_id"
    and k: "k < maxAttempts"
    and waiting: "\<forall>i<k. \<exists>s. runs_get w i = Inr s \<and> pending s"
    and completed: "runs_get w k = Inr status" "\<not> pending status"
      "status \<noteq> ''failed''" "status \<noteq> ''cancelled''"
    and msgs: "messages_list w = Inr messages"
      "filter (\<lambda>m. role m = ''assistant'') messages = m # rest"
      "responseText m = response" "response \<noteq> []"
  shows "hrStep w input = Inr (advisoryResult input response thread_id run_id)"
proof -
  obtain status0 where s0: "runs_get w 0 = Inr status0"
    using waiting completed by (cases "k = 0") auto
  have "pollLoop (runs_get w) status0 0 = Inr (status, k)"
    using k waiting completed s0 by (intro pollLoop_ends_at) simp_all
  from hrStep_try_serviceUp [OF up s0 this]
  have "hrStep_try w input = afterPolling w input thread_id run_id (status, k)" .
  also have "\<dots> = Inr (advisoryResult input response thread_id run_id)"
    using k msgs completed by (simp add: afterPolling_def andThen_def)
  finally show ?thesis by (simp add: hrStep_def)
qed

lemma hrStep_ceiling_reached:
  assumes up: "serviceUp w thread_id run_id"
    and waiting: "\<forall>i<maxAttempts. \<exists>s. runs_get w i = Inr s \<and> pending s"
    and last: "runs_get w maxAttempts = Inr status"
  shows "hrStep w input = Inr (fallbackHRStep input)"
proof -
  have "\<exists>s. runs_get w 0 = Inr s \<and> pending s"
    using waiting by (simp add: maxAttempts_def)
  then obtain status0 where s0: "runs_get w 0 = Inr status0"
    by blast
  have "pollLoop (runs_get w) status0 0 = Inr (status, maxAttempts)"
    using waiting last s0 by (intro pollLoop_ends_at) simp_all
  from hrStep_try_serviceUp [OF up s0 this]
  have "hrStep_try w input = afterPolling w input thread_id run_id (status, maxAttempts)" .
  also have "\<dots> = Inr (fallbackHRStep input)"
    by (simp add: afterPolling_def)
  finally show ?thesis by (simp add: hrStep_def)
qed

text \<open>
  The loop up to call \<open>k\<close>: while the run is pending at the calls before \<open>k\<close>, the loop
  gets as far as call \<open>k\<close>, and goes on from what that call gives.
\<close>

lemma pollLoop_until:
  assumes "get 0 = Inr status0" and "k \<le> maxAttempts"
    and "\<forall>i<k. \<exists>s. get i = Inr s \<and> pending s"
  shows "pollLoop get status0 0 =
           (case get k of Inl error \<Rightarrow> Inl error | Inr status \<Rightarrow> pollLoop get status k)"
proof (cases "k = 0")
  case True
  with assms show ?thesis by simp
next
  case False
  then have pos: "0 < k" by simp
  with assms have p0: "pending status0" by fastforce
  show ?thesis
  proof (cases "k = 1")
    case True
    show ?thesis
    proof (cases "get 1")
      case (Inl error)
      with pollLoop_throw [of status0 0 get error] p0 True show ?thesis
        by (simp add: maxAttempts_def)
    next
      case (Inr status)
      with pollLoop_step [of status0 0 get status] p0 True show ?thesis
        by (simp add: maxAttempts_def)
    qed
  next
    case False
    with pos have k2: "0 < k - 1" by simp
    obtain s1 where s1: "get (k - 1) = Inr s1" "pending s1"
      using assms pos by (metis diff_less zero_less_one)
    have mid: "\<forall>i. 0 < i \<and> i < k - 1 \<longrightarrow> (\<exists>s'. get i = Inr s' \<and> pending s')"
    proof (intro allI impI)
      fix i assume "0 < i \<and> i < k - 1"
      then have "i < k" by arith
      with assms(3) show "\<exists>s'. get i = Inr s' \<and> pending s'" by blast
    qed
    have "pollLoop get status0 0 = pollLoop get s1 (k - 1)"
      using assms(2) k2 p0 s1 mid
      by (intro pollLoop_pending_run [where d = "k - 1 - 0"]) simp_all
    moreover have "k - 1 < maxAttempts" using assms pos by simp
    moreover have "k - 1 + 1 = k" using pos by simp
    ultimately show ?thesis
      using pollLoop_throw [of s1 "k - 1" get] pollLoop_step [of s1 "k - 1" get] s1
      by (cases "get k") simp_all
  qed
qed

lemma afterPolling_advisory:
  assumes "afterPolling w input thread_id run_id polled = Inr result"
    and "result \<noteq> fallbackHRStep input"
  shows "snd polled < maxAttempts \<and> fst polled \<noteq> ''failed'' \<and> fst polled \<noteq> ''cancelled'' \<and>
         (\<exists>messages m rest. messages_list w = Inr messages \<and>
            filter (\<lambda>m. role m = ''assistant'') messages = m # rest \<and> responseText m \<noteq> [] \<and>
            result = advisoryResult input (responseText m) thread_id run_id)"
  using assms
  by (auto simp: afterPolling_def andThen_def Let_def split: if_splits sum.splits list.splits)

lemma hrStep_try_advisory:
  assumes "hrStep_try w input = Inr result" and "result \<noteq> fallbackHRStep input"
  shows "\<exists>thread_id run_id status0 polled.
           serviceUp w thread_id run_id \<and> runs_get w 0 = Inr status0 \<and>
           pollLoop (runs_get w) status0 0 = Inr polled \<and>
           afterPolling w input thread_id run_id polled = Inr result"
  using assms unfolding hrStep_try_def
  by (auto simp: andThen_Inr serviceUp_def split: if_splits)

text \<open>
  Whenever \<open>hrStep\<close> does not answer with the fallback, the advisory path went through
  to its end: the service was up, the loop ended below the ceiling on a status other
  than \<open>failed\<close> and \<open>cancelled\<close>, and the first assistant message had a text.
\<close>

lemma hrStep_not_fallback:
  assumes "hrStep w input \<noteq> Inr (fallbackHRStep input)"
  shows "\<exists>thread_id run_id status0 runStatus attempts messages m rest.
           serviceUp w thread_id run_id \<and> runs_get w 0 = Inr status0 \<and>
           pollLoop (runs_get w) status0 0 = Inr (runStatus, attempts) \<and>
           attempts < maxAttempts \<and> runStatus \<noteq> ''failed'' \<and> runStatus \<noteq> ''cancelled'' \<and>
           messages_list w = Inr messages \<and>
           filter (\<lambda>m. role m = ''assistant'') messages = m # rest \<and> responseText m \<noteq> [] \<and>
           hrStep w input = Inr (advisoryResult input (responseText m) thread_id run_id)"
proof -
  obtain result where r: "hrStep_try w input = Inr result" "result \<noteq> fallbackHRStep input"
    using assms by (cases "hrStep_try w input") (auto simp: hrStep_def)
  from hrStep_try_advisory [OF r] obtain thread_id run_id status0 polled where
    up: "serviceUp w thread_id run_id" "runs_get w 0 = Inr status0"
      "pollLoop (runs_get w) status0 0 = Inr polled"
      "afterPolling w input thread_id run_id polled = Inr result"
    by blast
  from afterPolling_advisory [OF up(4) r(2)] obtain messages m rest where
    a: "snd polled < maxAttempts" "fst polled \<noteq> ''failed''" "fst polled \<noteq> ''cancelled''"
      "messages_list w = Inr messages"
      "filter (\<lambda>m. role m = ''assistant'') messages = m # rest" "responseText m \<noteq> []"
      "result = advisoryResult input (responseText m) thread_id run_id"
    by blast
  have "hrStep w input = Inr (advisoryResult input (responseText m) thread_id run_id)"
    using r(1) a(7) by (simp add: hrStep_def)
  moreover have "pollLoop (runs_get w) status0 0 = Inr (fst polled, snd polled)"
    using up(3) by simp
  ultimately show ?thesis using up(1,2) a(1-6) by blast
qed

lemma hrStep_call_throws:
  assumes "(\<exists>e. newCredential w = Inl e) \<or> (\<exists>e. newClient w = Inl e) \<or>
           (\<exists>e. threads_create w = Inl e) \<or> (\<exists>e. messages_create w = Inl e) \<or>
           (\<exists>e. runs_create w = Inl e) \<or> (\<exists>e. messages_list w = Inl e)"
  shows "hrStep w input = Inr (fallbackHRStep input)"
proof (rule ccontr)
  assume "hrStep w input \<noteq> Inr (fallbackHRStep input)"
  from hrStep_not_fallback [OF this] assms show False
    by (auto simp: serviceUp_def)
qed

lemma hrStep_run_fails:
  assumes "k \<le> maxAttempts" and "\<forall>i<k. \<exists>s. runs_get w i = Inr s \<and> pending s"
    and "(\<exists>e. runs_get w k = Inl e) \<or> runs_get w k = Inr ''failed'' \<or>
         runs_get w k = Inr ''cancelled'' \<or> k = maxAttempts"
  shows "hrStep w input = Inr (fallbackHRStep input)"
proof (rule ccontr)
  assume "hrStep w input \<noteq> Inr (fallbackHRStep input)"
  from hrStep_not_fallback [OF this] obtain status0 runStatus attempts where
    p: "runs_get w 0 = Inr status0"
      "pollLoop (runs_get w) status0 0 = Inr (runStatus, attempts)"
      "attempts < maxAttempts" "runStatus \<noteq> ''failed''" "runStatus \<noteq> ''cancelled''"
    by blast
  from pollLoop_until [OF p(1) assms(1,2)] p(2)
  have u: "(case runs_get w k of Inl error \<Rightarrow> Inl error
            | Inr status \<Rightarrow> pollLoop (runs_get w) status k) = Inr (runStatus, attempts)"
    by simp
  show False
  proof (cases "runs_get w k")
    case (Inl error)
    with u show False by simp
  next
    case (Inr status)
    with u have l: "pollLoop (runs_get w) status k = Inr (runStatus, attempts)" by simp
    from assms(3) Inr consider "status = ''failed''" | "status = ''cancelled''" | "k = maxAttempts"
      by auto
    then show False
    proof cases
      case 1
      with l p(4) show False by (simp add: pollLoop_stop pending_def)
    next
      case 2
      with l p(5) show False by (simp add: pollLoop_stop pending_def)
    next
      case 3
      with l p(3) show False by (simp add: pollLoop_stop)
    qed
  qed
qed

lemma hrStep_empty_response:
  assumes "messages_list w = Inr messages"
    and "case filter (\<lambda>m. role m = ''assistant'') messages of
           [] \<Rightarrow> True | m # rest \<Rightarrow> responseText m = []"
  shows "hrStep w input = Inr (fallbackHRStep input)"
proof (rule ccontr)
  assume "hrStep w input \<noteq> Inr (fallbackHRStep input)"
  from hrStep_not_fallback [OF this] assms show False
    by auto
qed

lemma serviceUp_respondingWorld: "serviceUp (respondingWorld statuses response) ''thread_1'' ''run_1''"
  by (simp add: serviceUp_def respondingWorld_def unset_def validateAzureCredentials_def)

text \<open>
  C5. For every world and input \<open>hrStep\<close> returns a result and never raises, and the
  result is the fallback or the advisory result for a non-empty response. Every failure
  of the advisory path ends in the fallback: an exception thrown in the \<open>try\<close> block;
  the endpoint or the agent id not configured; the credential not valid; a constructor,
  the thread, the message or the run creation, or the message listing throwing; the run
  polled up to call \<open>k\<close> and that call throwing, or reporting \<open>failed\<close> or \<open>cancelled\<close>, or
  being the ceiling; no assistant message, or one without text. Only a run that ends below
  the ceiling on another status, with a first assistant message that has a text, gives
  the advisory result. The fallback carries no thread or run identifier, the advisory
  result carries both.
\<close>

theorem hrStep_never_raises:
  "(\<exists>result. hrStep w input = Inr result \<and>
      (result = fallbackHRStep input \<or>
       (\<exists>response thread_id run_id. response \<noteq> [] \<and>
          result = advisoryResult input response thread_id run_id))) \<and>
   (\<forall>error. hrStep_try w input = Inl error \<longrightarrow> hrStep w input = Inr (fallbackHRStep input)) \<and>
   (unset (AZURE_AI_PROJECT_ENDPOINT w) \<or> unset (AZURE_AI_AGENT_ID w) \<longrightarrow>
      hrStep w input = Inr (fallbackHRStep input)) \<and>
   (\<not> validateAzureCredentials w \<longrightarrow> hrStep w input = Inr (fallbackHRStep input)) \<and>
   ((\<exists>e. newCredential w = Inl e) \<or> (\<exists>e. newClient w = Inl e) \<or>
    (\<exists>e. threads_create w = Inl e) \<or> (\<exists>e. messages_create w = Inl e) \<or>
    (\<exists>e. runs_create w = Inl e) \<or> (\<exists>e. messages_list w = Inl e) \<longrightarrow>
      hrStep w input = Inr (fallbackHRStep input)) \<and>
   (\<forall>k. k \<le> maxAttempts \<and> (\<forall>i<k. \<exists>s. runs_get w i = Inr s \<and> pending s) \<and>
        ((\<exists>e. runs_get w k = Inl e) \<or> runs_get w k = Inr ''failed'' \<or>
         runs_get w k = Inr ''cancelled'' \<or> k = maxAttempts) \<longrightarrow>
      hrStep w input = Inr (fallbackHRStep input)) \<and>
   (\<forall>messages. messages_list w = Inr messages \<and>
        (case filter (\<lambda>m. role m = ''assistant'') messages of
           [] \<Rightarrow> True | m # rest \<Rightarrow> responseText m = []) \<longrightarrow>
      hrStep w input = Inr (fallbackHRStep input)) \<and>
   (\<forall>thread_id run_id k status messages m rest.
        serviceUp w thread_id run_id \<and> k < maxAttempts \<and>
        (\<forall>i<k. \<exists>s. runs_get w i = Inr s \<and> pending s) \<and>
        runs_get w k = Inr status \<and> \<not> pending status \<and>
        status \<noteq> ''failed'' \<and> status \<noteq> ''cancelled'' \<and>
        messages_list w = Inr messages \<and>
        filter (\<lambda>m. role m = ''assistant'') messages = m # rest \<and> responseText m \<noteq> [] \<longrightarrow>
      hrStep w input = Inr (advisoryResult input (responseText m) thread_id run_id)) \<and>
   threadId (fallbackHRStep input) = None \<and> runId (fallbackHRStep input) = None \<and>
   threadId (advisoryResult input response thread_id run_id) = Some thread_id \<and>
   runId (advisoryResult input response thread_id run_id) = Some run_id"
proof -
  obtain result where r: "hrStep w input = Inr result"
    using hrStep_returns by blast
  from hrStep_result [OF r] r
  have c1: "\<exists>result. hrStep w input = Inr result \<and>
      (result = fallbackHRStep input \<or>
       (\<exists>response thread_id run_id. response \<noteq> [] \<and>
          result = advisoryResult input response thread_id run_id))"
    by blast
  have c2: "\<forall>error. hrStep_try w input = Inl error \<longrightarrow> hrStep w input = Inr (fallbackHRStep input)"
    by (simp add: hrStep_catch)
  have c3: "unset (AZURE_AI_PROJECT_ENDPOINT w) \<or> unset (AZURE_AI_AGENT_ID w) \<longrightarrow>
      hrStep w input = Inr (fallbackHRStep input)"
    by (auto simp: hrStep_def hrStep_try_def)
  have c4: "\<not> validateAzureCredentials w \<longrightarrow> hrStep w input = Inr (fallbackHRStep input)"
  proof
    assume "\<not> validateAzureCredentials w"
    show "hrStep w input = Inr (fallbackHRStep input)"
    proof (rule ccontr)
      assume "hrStep w input \<noteq> Inr (fallbackHRStep input)"
      from hrStep_not_fallback [OF this] \<open>\<not> validateAzureCredentials w\<close> show False
        by (auto simp: serviceUp_def)
    qed
  qed
  have c5: "(\<exists>e. newCredential w = Inl e) \<or> (\<exists>e. newClient w = Inl e) \<or>
    (\<exists>e. threads_create w = Inl e) \<or> (\<exists>e. messages_create w = Inl e) \<or>
    (\<exists>e. runs_create w = Inl e) \<or> (\<exists>e. messages_list w = Inl e) \<longrightarrow>
      hrStep w input = Inr (fallbackHRStep input)"
    using hrStep_call_throws by blast
  have c6: "\<forall>k. k \<le> maxAttempts \<and> (\<forall>i<k. \<exists>s. runs_get w i = Inr s \<and> pending s) \<and>
        ((\<exists>e. runs_get w k = Inl e) \<or> runs_get w k = Inr ''failed'' \<or>
         runs_get w k = Inr ''cancelled'' \<or> k = maxAttempts) \<longrightarrow>
      hrStep w input = Inr (fallbackHRStep input)"
    using hrStep_run_fails by blast
  have c7: "\<forall>messages. messages_list w = Inr messages \<and>
        (case filter (\<lambda>m. role m = ''assistant'') messages of
           [] \<Rightarrow> True | m # rest \<Rightarrow> responseText m = []) \<longrightarrow>
      hrStep w input = Inr (fallbackHRStep input)"
    using hrStep_empty_response by blast
  have c8: "\<forall>thread_id run_id k status messages m rest.
        serviceUp w thread_id run_id \<and> k < maxAttempts \<and>
        (\<forall>i<k. \<exists>s. runs_get w i = Inr s \<and> pending s) \<and>
        runs_get w k = Inr status \<and> \<not> pending status \<and>
        status \<noteq> ''failed'' \<and> status \<noteq> ''cancelled'' \<and>
        messages_list w = Inr messages \<and>
        filter (\<lambda>m. role m = ''assistant'') messages = m # rest \<and> responseText m \<noteq> [] \<longrightarrow>
      hrStep w input = Inr (advisoryResult input (responseText m) thread_id run_id)"
    using hrStep_completed_before_ceiling by blast
  show ?thesis
    using c1 c2 c3 c4 c5 c6 c7 c8
    by (simp only: fallbackHRStep_fields advisoryResult_fields simp_thms)
qed

theorem hrStep_never_raises_witness:
  "hrStep_try (respondingWorld (\<lambda>n. Inl (Exn ''ECONNRESET'')) ''ok'')
     \<lparr>employees = [], lunchMenu = [''Rice'']\<rparr> = Inl (Exn ''ECONNRESET'') \<and>
   hrStep (respondingWorld (\<lambda>n. Inl (Exn ''ECONNRESET'')) ''ok'')
     \<lparr>employees = [], lunchMenu = [''Rice'']\<rparr> =
     Inr (fallbackHRStep \<lparr>employees = [], lunchMenu = [''Rice'']\<rparr>) \<and>
   hrStep ((respondingWorld (\<lambda>n. Inr ''completed'') ''ok'')\<lparr>AZURE_AI_AGENT_ID := Some []\<rparr>)
     \<lparr>employees = [], lunchMenu = [''Rice'']\<rparr> =
     Inr (fallbackHRStep \<lparr>employees = [], lunchMenu = [''Rice'']\<rparr>) \<and>
   hrStep ((respondingWorld (\<lambda>n. Inr ''completed'') ''ok'')\<lparr>getToken := Inl (Exn ''denied'')\<rparr>)
     \<lparr>employees = [], lunchMenu = [''Rice'']\<rparr> =
     Inr (fallbackHRStep \<lparr>employees = [], lunchMenu = [''Rice'']\<rparr>) \<and>
   hrStep ((respondingWorld (\<lambda>n. Inr ''completed'') ''ok'')\<lparr>threads_create := Inl (Exn ''503'')\<rparr>)
     \<lparr>employees = [], lunchMenu = [''Rice'']\<rparr> =
     Inr (fallbackHRStep \<lparr>employees = [], lunchMenu = [''Rice'']\<rparr>) \<and>
   hrStep (respondingWorld (\<lambda>n. if n < 2 then Inr ''queued'' else Inr ''failed'') ''ok'')
     \<lparr>employees = [], lunchMenu = [''Rice'']\<rparr> =
     Inr (fallbackHRStep \<lparr>employees = [], lunchMenu = [''Rice'']\<rparr>) \<and>
   hrStep (respondingWorld (\<lambda>n. Inr ''in_progress'') ''ok'')
     \<lparr>employees = [], lunchMenu = [''Rice'']\<rparr> =
     Inr (fallbackHRStep \<lparr>employees = [], lunchMenu = [''Rice'']\<rparr>) \<and>
   hrStep (respondingWorld (\<lambda>n. Inr ''completed'') [])
     \<lparr>employees = [], lunchMenu = [''Rice'']\<rparr> =
     Inr (fallbackHRStep \<lparr>employees = [], lunchMenu = [''Rice'']\<rparr>) \<and>
   hrStep (respondingWorld (\<lambda>n. if n < 2 then Inr ''queued'' else Inr ''completed'') ''ok'')
     \<lparr>employees = [], lunchMenu = [''Rice'']\<rparr> =
     Inr (advisoryResult \<lparr>employees = [], lunchMenu = [''Rice'']\<rparr> ''ok'' ''thread_1'' ''run_1'')"
proof -
  let ?I = "\<lparr>employees = [], lunchMenu = [''Rice'']\<rparr>"
  let ?thrown = "respondingWorld (\<lambda>n. Inl (Exn ''ECONNRESET'')) ''ok''"
  let ?unset = "(respondingWorld (\<lambda>n. Inr ''completed'') ''ok'')\<lparr>AZURE_AI_AGENT_ID := Some []\<rparr>"
  let ?denied = "(respondingWorld (\<lambda>n. Inr ''completed'') ''ok'')\<lparr>getToken := Inl (Exn ''denied'')\<rparr>"
  let ?down = "(respondingWorld (\<lambda>n. Inr ''completed'') ''ok'')\<lparr>threads_create := Inl (Exn ''503'')\<rparr>"
  let ?failed = "respondingWorld (\<lambda>n. if n < 2 then Inr ''queued'' else Inr ''failed'') ''ok''"
  let ?slow = "respondingWorld (\<lambda>n. Inr ''in_progress'') ''ok''"
  let ?silent = "respondingWorld (\<lambda>n. Inr ''completed'') []"
  let ?good = "respondingWorld (\<lambda>n. if n < 2 then Inr ''queued'' else Inr ''completed'') ''ok''"
  have t: "hrStep_try ?thrown ?I = Inl (Exn ''ECONNRESET'')"
    by (simp add: hrStep_try_def respondingWorld_def unset_def validateAzureCredentials_def
        andThen_def)
  have 1: "hrStep ?thrown ?I = Inr (fallbackHRStep ?I)"
    by (rule hrStep_never_raises [of ?thrown ?I "''ok''" "''thread_1''" "''run_1''",
          THEN conjunct2, THEN conjunct1, rule_format, OF t])
  have 2: "hrStep ?unset ?I = Inr (fallbackHRStep ?I)"
    by (rule hrStep_never_raises [of ?unset ?I "''ok''" "''thread_1''" "''run_1''",
          THEN conjunct2, THEN conjunct2, THEN conjunct1, rule_format])
      (simp add: unset_def)
  have 3: "hrStep ?denied ?I = Inr (fallbackHRStep ?I)"
    by (rule hrStep_never_raises [of ?denied ?I "''ok''" "''thread_1''" "''run_1''",
          THEN conjunct2, THEN conjunct2, THEN conjunct2, THEN conjunct1, rule_format])
      (simp add: validateAzureCredentials_def)
  have 4: "hrStep ?down ?I = Inr (fallbackHRStep ?I)"
    by (rule hrStep_never_raises [of ?down ?I "''ok''" "''thread_1''" "''run_1''",
          THEN conjunct2, THEN conjunct2, THEN conjunct2, THEN conjunct2, THEN conjunct1, rule_format])
      simp
  have 5: "hrStep ?failed ?I = Inr (fallbackHRStep ?I)"
    by (rule hrStep_never_raises [of ?failed ?I "''ok''" "''thread_1''" "''run_1''",
          THEN conjunct2, THEN conjunct2, THEN conjunct2, THEN conjunct2, THEN conjunct2, THEN conjunct1, rule_format, of 2])
      (simp add: respondingWorld_def maxAttempts_def pending_def)
  have 6: "hrStep ?slow ?I = Inr (fallbackHRStep ?I)"
    by (rule hrStep_never_raises [of ?slow ?I "''ok''" "''thread_1''" "''run_1''",
          THEN conjunct2, THEN conjunct2, THEN conjunct2, THEN conjunct2, THEN conjunct2, THEN conjunct1, rule_format, of maxAttempts])
      (simp add: respondingWorld_def pending_def)
  have 7: "hrStep ?silent ?I = Inr (fallbackHRStep ?I)"
    by (rule hrStep_never_raises [of ?silent ?I "''ok''" "''thread_1''" "''run_1''",
          THEN conjunct2, THEN conjunct2, THEN conjunct2, THEN conjunct2, THEN conjunct2, THEN conjunct2, THEN conjunct1, rule_format,
          of "[\<lparr>role = ''assistant'', content = [TextContent []]\<rparr>,
               \<lparr>role = ''user'', content = [TextContent ''Analyze this lunch menu'']\<rparr>]"])
      (simp add: respondingWorld_def responseText_def)
  have "hrStep ?good ?I =
      Inr (advisoryResult ?I (responseText \<lparr>role = ''assistant'', content = [TextContent ''ok'']\<rparr>)
             ''thread_1'' ''run_1'')"
    by (rule hrStep_never_raises [of ?good ?I "''ok''" "''thread_1''" "''run_1''",
          THEN conjunct2, THEN conjunct2, THEN conjunct2, THEN conjunct2, THEN conjunct2, THEN conjunct2, THEN conjunct2, THEN conjunct1, rule_format,
          of "''thread_1''" "''run_1''" 2 "''completed''"
             "[\<lparr>role = ''assistant'', content = [TextContent ''ok'']\<rparr>,
               \<lparr>role = ''user'', content = [TextContent ''Analyze this lunch menu'']\<rparr>]"
             _ "[]"])
      (simp add: serviceUp_respondingWorld,
       simp add: respondingWorld_def maxAttempts_def pending_def responseText_def)
  then have 8: "hrStep ?good ?I = Inr (advisoryResult ?I ''ok'' ''thread_1'' ''run_1'')"
    by (simp add: responseText_def)
  from t 1 2 3 4 5 6 7 8 show ?thesis
    by (intro conjI)
qed

text \<open>
  C4. The claim fails at the ceiling itself. When the run is still in progress at the
  calls 0 to 59 and the 60th poll of the loop (call 60) reports \<open>completed\<close>, the loop
  ends with \<open>attempts = 60\<close>, the test \<open>attempts >= maxAttempts\<close> takes the time-out
  branch without looking at the status, and \<open>hrStep\<close> answers with the fallback although
  the run has succeeded and its response is there. One poll earlier the same run gives
  the advisory result.
\<close>

theorem hrStep_completed_at_ceiling_times_out:
  "runs_get (respondingWorld (\<lambda>n. if n < 60 then Inr ''in_progress'' else Inr ''completed'')
               ''Low risk: vegetarian options present'') 60 = Inr ''completed'' \<and>
   hrStep (respondingWorld (\<lambda>n. if n < 60 then Inr ''in_progress'' else Inr ''completed'')
             ''Low risk: vegetarian options present'') input =
     Inr (fallbackHRStep input) \<and>
   threadId (fallbackHRStep input) = None \<and>
   hrStep (respondingWorld (\<lambda>n. if n < 59 then Inr ''in_progress'' else Inr ''completed'')
             ''Low risk: vegetarian options present'') input =
     Inr (advisoryResult input ''Low risk: vegetarian options present'' ''thread_1'' ''run_1'')"
proof -
  let ?late = "respondingWorld (\<lambda>n. if n < 60 then Inr ''in_progress'' else Inr ''completed'')
                 ''Low risk: vegetarian options present''"
  let ?early = "respondingWorld (\<lambda>n. if n < 59 then Inr ''in_progress'' else Inr ''completed'')
                 ''Low risk: vegetarian options present''"
  have g: "runs_get ?late 60 = Inr ''completed''"
    by (simp add: respondingWorld_def)
  have "hrStep ?late input = Inr (fallbackHRStep input)"
    by (rule hrStep_ceiling_reached [OF serviceUp_respondingWorld, where status = "''completed''"])
      (simp_all add: respondingWorld_def maxAttempts_def pending_def)
  moreover have "hrStep ?early input =
      Inr (advisoryResult input ''Low risk: vegetarian options present'' ''thread_1'' ''run_1'')"
    by (rule hrStep_completed_before_ceiling [OF serviceUp_respondingWorld, where k = 59 and status = "''completed''"
          and m = "\<lparr>role = ''assistant'',
                   content = [TextContent ''Low risk: vegetarian options present'']\<rparr>"
          and rest = "[]"
          and messages = "[\<lparr>role = ''assistant'',
                            content = [TextContent ''Low risk: vegetarian options present'']\<rparr>,
                          \<lparr>role = ''user'', content = [TextContent ''Analyze this lunch menu'']\<rparr>]"])
      (simp_all add: respondingWorld_def maxAttempts_def pending_def responseText_def)
  ultimately show ?thesis using g by (simp add: fallbackHRStep_fields)
qed

section \<open>Risk classification of the advisory response\<close>

lemma fallbackHRStep_high:
  "list_ex containsTobacco (lunchMenu input) \<or> list_ex containsMajorAllergens (lunchMenu input) \<Longrightarrow>
   riskLevel (fallbackHRStep input) = High"
  by (auto simp: fallbackHRStep_def Let_def)

lemma fallbackHRStep_inclusivity_medium:
  "\<not> list_ex containsTobacco (lunchMenu input) \<Longrightarrow>
   \<not> list_ex containsMajorAllergens (lunchMenu input) \<Longrightarrow>
   validateInclusivity (sanitized (sanitizeMenuBasedOnPolicy (lunchMenu input))) \<noteq> [] \<Longrightarrow>
   riskLevel (fallbackHRStep input) = Medium"
  by (auto simp: fallbackHRStep_def Let_def)

lemma parseRiskLevel_high_keyword:
  "str_includes (toLowerCase response) ''tobacco'' \<or> str_includes (toLowerCase response) ''peanut'' \<or>
   str_includes (toLowerCase response) ''shellfish'' \<Longrightarrow>
   parseRiskLevel response = High"
  by (auto simp: parseRiskLevel_def Let_def)

text \<open>
  C3. The claim fails for the advisory response. \<open>parseRiskLevel\<close> looks for
  \<open>tobacco\<close>, \<open>peanut\<close> and \<open>shellfish\<close> only: a response that names tree nuts and cigars,
  which \<open>containsMajorAllergens\<close> and \<open>containsTobacco\<close> recognise (and for which
  \<open>extractRiskReasons\<close> reports a major allergen and a tobacco product), is classified
  low, and \<open>hrStep\<close> returns that level.
\<close>

theorem parseRiskLevel_misses_tree_nut_and_cigar:
  "containsMajorAllergens ''Found tree nuts and cigars'' \<and>
   containsTobacco ''Found tree nuts and cigars'' \<and>
   parseRiskLevel ''Found tree nuts and cigars'' = Low \<and>
   hrStep (respondingWorld (\<lambda>n. Inr ''completed'') ''Found tree nuts and cigars'') input =
     Inr (advisoryResult input ''Found tree nuts and cigars'' ''thread_1'' ''run_1'') \<and>
   riskLevel (advisoryResult input ''Found tree nuts and cigars'' ''thread_1'' ''run_1'') = Low"
proof -
  have e: "containsMajorAllergens ''Found tree nuts and cigars'' \<and>
      containsTobacco ''Found tree nuts and cigars'' \<and>
      parseRiskLevel ''Found tree nuts and cigars'' = Low"
    by code_simp
  have "hrStep (respondingWorld (\<lambda>n. Inr ''completed'') ''Found tree nuts and cigars'') input =
     Inr (advisoryResult input ''Found tree nuts and cigars'' ''thread_1'' ''run_1'')"
    by (rule hrStep_completed_before_ceiling [OF serviceUp_respondingWorld, where k = 0 and status = "''completed''"
          and m = "\<lparr>role = ''assistant'', content = [TextContent ''Found tree nuts and cigars'']\<rparr>"
          and rest = "[]"
          and messages = "[\<lparr>role = ''assistant'',
                            content = [TextContent ''Found tree nuts and cigars'']\<rparr>,
                          \<lparr>role = ''user'', content = [TextContent ''Analyze this lunch menu'']\<rparr>]"])
      (simp_all add: respondingWorld_def maxAttempts_def responseText_def pending_def)
  with e show ?thesis by (simp add: advisoryResult_fields)
qed

end
